theory Spec2Isabelle
  imports Main
begin

section \<open>Data model\<close>

text \<open>
  The nodes handed to the graph store. A content item carries the attributes the source
  reads back from the stored node (\<open>id\<close>, \<open>typeName\<close>, \<open>path\<close>, \<open>isComponent\<close>); an
  asset carries \<open>id\<close>, \<open>url\<close> and \<open>type\<close> (its media type); a term node and an item
  link node are the object literals built in \<open>addTaxonomyTermNodes\<close> and
  \<open>addItemLinkNode\<close>. Further fields of an item or an asset are carried along
  untouched by the source and are left out.
\<close>

record item =
  item_id :: string
  item_typeName :: string
  item_path :: string
  isComponent :: bool

record asset =
  asset_id :: string
  asset_url :: string
  asset_type :: string

record termNode =
  termNode_id :: string
  termNode_name :: string
  termNode_slug :: string
  termNode_terms :: "string list"

record itemLinkNode =
  itemLink_id :: string
  itemLink_typeName :: string
  itemLink_path :: string

datatype node =
    ContentNode item
  | AssetNode asset
  | TermNode termNode
  | ItemLinkNode itemLinkNode

fun node_id :: "node \<Rightarrow> string" where
  "node_id (ContentNode i) = item_id i"
| "node_id (AssetNode a) = asset_id a"
| "node_id (TermNode t) = termNode_id t"
| "node_id (ItemLinkNode l) = itemLink_id l"

text \<open>
  What \<open>contentItem.createNode()\<close> returns: the item and its three classified field
  groups.
\<close>

record linkedItem =
  linkedItem_id :: string
  linkedItem_typeName :: string

record linkedItemField =
  linkedItemField_fieldName :: string
  linkedItems :: "linkedItem list"

record taxonomyField =
  taxonomyField_fieldName :: string
  taxonomyGroup :: string

record assetField =
  assetField_fieldName :: string
  assets :: "asset list"

record contentNode =
  item :: item
  linkedItemFields :: "linkedItemField list"
  taxonomyFields :: "taxonomyField list"
  assetFields :: "assetField list"

text \<open>
  A content item of the delivery client, as far as the source uses it: the call
  \<open>contentItem.createNode()\<close> and the node it answers with.
\<close>

record contentItem =
  createNode :: contentNode

text \<open>
  The response of \<open>getContent\<close>: the primary entries and the side table of linked
  items, an object keyed by codename. The object is held as the list of its entries in
  the order in which \<open>Object.keys\<close> lists them; an object has each key once, so
  mapping its keys to their values gives the second components in that order.
\<close>

record content =
  items :: "contentItem list"
  content_linkedItems :: "(string \<times> contentItem) list"

text \<open>
  A taxonomy term as the taxonomy item exposes it. The list of child terms is optional:
  \<open>None\<close> stands for a \<open>terms\<close> property that is missing (\<open>undefined\<close> or
  \<open>null\<close>), \<open>Some ts\<close> for an array.
\<close>

datatype taxonomyTerm =
  Term (term_id: string) (term_name: string) (term_slug: string)
       (term_terms: "taxonomyTerm list option")

record taxonomyItem =
  taxonomyItem_typeName :: string
  taxonomyItem_terms :: "taxonomyTerm list option"

section \<open>The graph store\<close>

text \<open>
  Modelled from the spec: the graph store and its collections. They belong to the host
  framework, and the source reaches them only through \<open>getCollection\<close>,
  \<open>addCollection\<close> and \<open>addSchemaResolvers\<close> on the store and \<open>findNode\<close>,
  \<open>addNode\<close>, \<open>addReference\<close> and the length of the node list on a collection.
  A collection is the list of its nodes in insertion order together with its declared
  references (field name to type name, a later declaration of a field name replacing
  the earlier one); the store maps a type name to its collection and remembers for
  which type names schema resolvers were registered.

  A collection object is denoted by its type name: the source obtains every collection
  from \<open>getCollection\<close>, which returns the one object the store holds under that name,
  so two handles with the same name are the same object.
\<close>

record collection =
  data :: "node list"
  refs :: "string \<rightharpoonup> string"

record store =
  collections :: "string \<rightharpoonup> collection"
  schemaResolvers :: "string list"

definition emptyCollection :: collection where
  "emptyCollection = \<lparr>data = [], refs = Map.empty\<rparr>"

definition emptyStore :: store where
  "emptyStore = \<lparr>collections = Map.empty, schemaResolvers = []\<rparr>"

definition store_addCollection :: "store \<Rightarrow> string \<Rightarrow> store" where
  "store_addCollection s typeName =
     s\<lparr>collections := (collections s)(typeName \<mapsto> emptyCollection)\<rparr>"

definition store_addSchemaResolvers :: "store \<Rightarrow> string \<Rightarrow> store" where
  "store_addSchemaResolvers s typeName =
     s\<lparr>schemaResolvers := schemaResolvers s @ [typeName]\<rparr>"

text \<open>The nodes of the collection named \<open>c\<close>; a name the store does not know has none.\<close>

definition nodesOf :: "store \<Rightarrow> string \<Rightarrow> node list" where
  "nodesOf s c = (case collections s c of None \<Rightarrow> [] | Some col \<Rightarrow> data col)"

definition refsOf :: "store \<Rightarrow> string \<Rightarrow> (string \<rightharpoonup> string)" where
  "refsOf s c = (case collections s c of None \<Rightarrow> Map.empty | Some col \<Rightarrow> refs col)"

text \<open>\<open>collection.findNode({ id })\<close>: the first node with that id, or \<open>null\<close>.\<close>

definition findNode :: "store \<Rightarrow> string \<Rightarrow> string \<Rightarrow> node option" where
  "findNode s c i = find (\<lambda>n. node_id n = i) (nodesOf s c)"

text \<open>
  \<open>collection.addNode(n)\<close> and \<open>collection.addReference(fieldName, typeName)\<close>. The
  handle \<open>c\<close> always comes from \<open>getCollection\<close>, so the collection exists; the other
  branch is never taken by the source.
\<close>

definition addNode :: "store \<Rightarrow> string \<Rightarrow> node \<Rightarrow> store" where
  "addNode s c n =
     (case collections s c of
        None \<Rightarrow> s
      | Some col \<Rightarrow> s\<lparr>collections := (collections s)(c \<mapsto> col\<lparr>data := data col @ [n]\<rparr>)\<rparr>)"

definition addReference :: "store \<Rightarrow> string \<Rightarrow> string \<Rightarrow> string \<Rightarrow> store" where
  "addReference s c fieldName typeName =
     (case collections s c of
        None \<Rightarrow> s
      | Some col \<Rightarrow>
          s\<lparr>collections := (collections s)(c \<mapsto> col\<lparr>refs := (refs col)(fieldName \<mapsto> typeName)\<rparr>)\<rparr>)"

section \<open>KenticoKontentSource\<close>

text \<open>
  The two factories the source object holds. Their classes are not part of the code at
  hand, so the values they return are parameters.
\<close>

record contentItemFactory =
  getAssetTypeName :: string
  getItemLinkTypeName :: string

record taxonomyItemFactory =
  getTypeName :: "string \<Rightarrow> string"

text \<open>
  The delivery client answers with the codenames of the content types, with the
  taxonomy groups (each held as the taxonomy item the factory creates for it) and, for
  a codename, with the content of that type. A fetch that fails rejects the whole load
  outside this code and is not modelled.
\<close>

record deliveryClient =
  getContentTypes :: "string list"
  getTaxonomyGroups :: "taxonomyItem list"
  getContent :: "string \<Rightarrow> content"

record kenticoKontentSource =
  deliveryClient :: deliveryClient
  contentItemFactory :: contentItemFactory
  taxonomyItemFactory :: taxonomyItemFactory

definition assetTypeName :: "kenticoKontentSource \<Rightarrow> string" where
  "assetTypeName self = getAssetTypeName (contentItemFactory self)"

definition itemLinkTypeName :: "kenticoKontentSource \<Rightarrow> string" where
  "itemLinkTypeName self = getItemLinkTypeName (contentItemFactory self)"

text \<open>\<open>getCollection(store, typeName)\<close>: the collection if the store has it, else a new one.\<close>

definition getCollection :: "store \<Rightarrow> string \<Rightarrow> store" where
  "getCollection s typeName =
     (case collections s typeName of
        Some col \<Rightarrow> s
      | None \<Rightarrow> store_addCollection s typeName)"

subsection \<open>Taxonomy terms\<close>

datatype error = TypeError

text \<open>
  \<open>addTaxonomyTermNodes(collection, terms)\<close> works on one collection, so the model
  passes that collection. Reading \<open>length\<close> or \<open>map\<close> of a missing list raises a
  \<open>TypeError\<close>; the result then carries the collection as the exception left it.
\<close>

definition collection_addNode :: "collection \<Rightarrow> node \<Rightarrow> collection" where
  "collection_addNode col n = col\<lparr>data := data col @ [n]\<rparr>"

definition termNodeOf :: "taxonomyTerm \<Rightarrow> taxonomyTerm list \<Rightarrow> node" where
  "termNodeOf t children =
     TermNode \<lparr>termNode_id = term_id t, termNode_name = term_name t,
               termNode_slug = term_slug t, termNode_terms = map term_id children\<rparr>"

fun addTaxonomyTermNodes ::
    "collection \<Rightarrow> taxonomyTerm list option \<Rightarrow> (error \<times> collection) + collection"
  and addTaxonomyTermNodes_loop ::
    "collection \<Rightarrow> taxonomyTerm list \<Rightarrow> (error \<times> collection) + collection"
where
  "addTaxonomyTermNodes col None = Inl (TypeError, col)"
| "addTaxonomyTermNodes col (Some ts) =
     (if length ts = 0 then Inr col else addTaxonomyTermNodes_loop col ts)"
| "addTaxonomyTermNodes_loop col [] = Inr col"
| "addTaxonomyTermNodes_loop col (Term i n sl None # ts) = Inl (TypeError, col)"
| "addTaxonomyTermNodes_loop col (Term i n sl (Some children) # ts) =
     (case addTaxonomyTermNodes
             (collection_addNode col (termNodeOf (Term i n sl (Some children)) children))
             (Some children) of
        Inl e \<Rightarrow> Inl e
      | Inr col' \<Rightarrow> addTaxonomyTermNodes_loop col' ts)"

text \<open>
  \<open>addTaxonomyGroupNodes(store)\<close>: per group the collection is fetched or created,
  the reference \<open>terms\<close> is declared on it and the terms are inserted.
\<close>

definition store_putCollection :: "store \<Rightarrow> string \<Rightarrow> collection \<Rightarrow> store" where
  "store_putCollection s c col = s\<lparr>collections := (collections s)(c \<mapsto> col)\<rparr>"

definition addTaxonomyGroup :: "store \<Rightarrow> taxonomyItem \<Rightarrow> (error \<times> store) + store" where
  "addTaxonomyGroup s taxonomyItem =
     (let typeName = taxonomyItem_typeName taxonomyItem;
          s1 = getCollection s typeName;
          s2 = addReference s1 typeName ''terms'' typeName
      in case collections s2 typeName of
           None \<Rightarrow> Inr s2
         | Some col \<Rightarrow>
             (case addTaxonomyTermNodes col (taxonomyItem_terms taxonomyItem) of
                Inl (e, col') \<Rightarrow> Inl (e, store_putCollection s2 typeName col')
              | Inr col' \<Rightarrow> Inr (store_putCollection s2 typeName col')))"

fun addTaxonomyGroupNodes_loop :: "store \<Rightarrow> taxonomyItem list \<Rightarrow> (error \<times> store) + store" where
  "addTaxonomyGroupNodes_loop s [] = Inr s"
| "addTaxonomyGroupNodes_loop s (g # gs) =
     (case addTaxonomyGroup s g of
        Inl e \<Rightarrow> Inl e
      | Inr s' \<Rightarrow> addTaxonomyGroupNodes_loop s' gs)"

definition addTaxonomyGroupNodes :: "kenticoKontentSource \<Rightarrow> store \<Rightarrow> (error \<times> store) + store" where
  "addTaxonomyGroupNodes self s =
     addTaxonomyGroupNodes_loop s (getTaxonomyGroups (deliveryClient self))"

subsection \<open>Reference resolution\<close>

fun addLinkedItemFields_loop :: "store \<Rightarrow> string \<Rightarrow> linkedItemField list \<Rightarrow> store" where
  "addLinkedItemFields_loop s c [] = s"
| "addLinkedItemFields_loop s c (linkedItemField # fs) =
     (if length (linkedItems linkedItemField) = 0 then addLinkedItemFields_loop s c fs
      else
        let typeNames = map linkedItem_typeName (linkedItems linkedItemField);
            fieldName = linkedItemField_fieldName linkedItemField;
            typeName = typeNames ! 0
        in addLinkedItemFields_loop (addReference s c fieldName typeName) c fs)"

definition addLinkedItemFields :: "store \<Rightarrow> string \<Rightarrow> contentNode \<Rightarrow> store" where
  "addLinkedItemFields s c node = addLinkedItemFields_loop s c (linkedItemFields node)"

fun addTaxonomyFields_loop ::
    "kenticoKontentSource \<Rightarrow> store \<Rightarrow> string \<Rightarrow> taxonomyField list \<Rightarrow> store" where
  "addTaxonomyFields_loop self s c [] = s"
| "addTaxonomyFields_loop self s c (taxonomyField # fs) =
     (let fieldName = taxonomyField_fieldName taxonomyField;
          codename = taxonomyGroup taxonomyField;
          typeName = getTypeName (taxonomyItemFactory self) codename
      in addTaxonomyFields_loop self (addReference s c fieldName typeName) c fs)"

definition addTaxonomyFields ::
    "kenticoKontentSource \<Rightarrow> store \<Rightarrow> string \<Rightarrow> contentNode \<Rightarrow> store" where
  "addTaxonomyFields self s c node = addTaxonomyFields_loop self s c (taxonomyFields node)"

text \<open>The inner loop of \<open>addAssetFields\<close> over the assets of one field.\<close>

fun addAssetFields_assets :: "store \<Rightarrow> string \<Rightarrow> asset list \<Rightarrow> store" where
  "addAssetFields_assets s assetCollection [] = s"
| "addAssetFields_assets s assetCollection (asset # as) =
     (case findNode s assetCollection (asset_id asset) of
        None \<Rightarrow> addAssetFields_assets (addNode s assetCollection (AssetNode asset)) assetCollection as
      | Some existingNode \<Rightarrow> addAssetFields_assets s assetCollection as)"

fun addAssetFields_loop :: "store \<Rightarrow> string \<Rightarrow> string \<Rightarrow> assetField list \<Rightarrow> store" where
  "addAssetFields_loop s typeName c [] = s"
| "addAssetFields_loop s typeName c (assetField # fs) =
     (let fieldName = assetField_fieldName assetField;
          s1 = addAssetFields_assets s typeName (assets assetField)
      in addAssetFields_loop (addReference s1 c fieldName typeName) typeName c fs)"

definition addAssetFields ::
    "kenticoKontentSource \<Rightarrow> store \<Rightarrow> string \<Rightarrow> contentNode \<Rightarrow> store" where
  "addAssetFields self s c node =
     (let typeName = assetTypeName self;
          s1 = getCollection s typeName
      in addAssetFields_loop s1 typeName c (assetFields node))"

subsection \<open>Content nodes\<close>

text \<open>
  \<open>addItemLinkNode(store, node)\<close> is called with the node just stored for an item, so
  the model takes that item.
\<close>

definition addItemLinkNode :: "kenticoKontentSource \<Rightarrow> store \<Rightarrow> item \<Rightarrow> store" where
  "addItemLinkNode self s node =
     (let typeName = itemLinkTypeName self;
          s1 = getCollection s typeName;
          itemLinkNode = \<lparr>itemLink_id = item_id node, itemLink_typeName = item_typeName node,
                          itemLink_path = item_path node\<rparr>
      in addNode s1 typeName (ItemLinkNode itemLinkNode))"

definition addContentNode ::
    "kenticoKontentSource \<Rightarrow> store \<Rightarrow> string \<Rightarrow> contentNode \<Rightarrow> store \<times> node" where
  "addContentNode self s c node =
     (case findNode s c (item_id (item node)) of
        Some existingNode \<Rightarrow> (s, existingNode)
      | None \<Rightarrow>
          (let s1 = addLinkedItemFields s c node;
               s2 = addTaxonomyFields self s1 c node;
               s3 = addAssetFields self s2 c node;
               s4 = addNode s3 c (ContentNode (item node));
               collectionNode = item node
           in if \<not> isComponent collectionNode
              then (addItemLinkNode self s4 collectionNode, ContentNode collectionNode)
              else (s4, ContentNode collectionNode)))"

fun addContentItemNodes ::
    "kenticoKontentSource \<Rightarrow> store \<Rightarrow> contentItem list \<Rightarrow> store" where
  "addContentItemNodes self s [] = s"
| "addContentItemNodes self s (contentItem # cs) =
     (let node = createNode contentItem;
          typeName = item_typeName (item node);
          s1 = getCollection s typeName
      in addContentItemNodes self (fst (addContentNode self s1 typeName node)) cs)"

definition addContentNodes :: "kenticoKontentSource \<Rightarrow> store \<Rightarrow> string \<Rightarrow> store" where
  "addContentNodes self s codename =
     (let content = getContent (deliveryClient self) codename;
          contentItems = items content;
          linkedItems = map snd (content_linkedItems content)
      in if length contentItems = 0 then s
         else
           let s1 = (if length linkedItems > 0 then addContentItemNodes self s linkedItems else s)
           in addContentItemNodes self s1 contentItems)"

subsection \<open>Schema resolvers\<close>

text \<open>
  \<open>addAssetSchemaResolvers(store)\<close>; \<open>assetCollection.collection.data.length\<close> is
  the number of nodes of the Asset collection.
\<close>

definition addAssetSchemaResolvers :: "kenticoKontentSource \<Rightarrow> store \<Rightarrow> store" where
  "addAssetSchemaResolvers self s =
     (let typeName = assetTypeName self;
          s1 = getCollection s typeName
      in if length (nodesOf s1 typeName) = 0 then s1
         else store_addSchemaResolvers s1 typeName)"

definition addSchemaResolvers :: "kenticoKontentSource \<Rightarrow> store \<Rightarrow> store" where
  "addSchemaResolvers self s = addAssetSchemaResolvers self s"

subsection \<open>load\<close>

text \<open>
  \<open>load(store)\<close>. \<open>addTypeResolvers\<close> only registers factories on the delivery
  client and touches no store, so it has no counterpart here.
\<close>

fun load_contentTypes :: "kenticoKontentSource \<Rightarrow> store \<Rightarrow> string list \<Rightarrow> store" where
  "load_contentTypes self s [] = s"
| "load_contentTypes self s (contentType # cts) =
     load_contentTypes self (addContentNodes self s contentType) cts"

definition load :: "kenticoKontentSource \<Rightarrow> store \<Rightarrow> (error \<times> store) + store" where
  "load self s =
     (let contentTypes = getContentTypes (deliveryClient self)
      in case addTaxonomyGroupNodes self s of
           Inl e \<Rightarrow> Inl e
         | Inr s1 \<Rightarrow> Inr (addSchemaResolvers self (load_contentTypes self s1 contentTypes)))"

subsection \<open>The url resolver of the Asset type\<close>

text \<open>
  The image url builder belongs to the delivery library. A builder is modelled by the
  url it was made from and the calls made on it, in order; \<open>getUrl\<close> renders them and
  is a parameter.
\<close>

datatype ImageFormatEnum = Gif | Jpg | Pjpg | Png | Png8 | Webp

datatype ImageCompressionEnum = Lossless | Lossy

datatype builderCall =
    WithWidth int
  | WithHeight int
  | WithAutomaticFormat ImageFormatEnum
  | WithFormat ImageFormatEnum
  | WithCompression ImageCompressionEnum
  | WithQuality int
  | WithDpr int

record imageUrlBuilder =
  builder_url :: string
  builder_calls :: "builderCall list"

definition newImageUrlBuilder :: "string \<Rightarrow> imageUrlBuilder" where
  "newImageUrlBuilder url = \<lparr>builder_url = url, builder_calls = []\<rparr>"

definition call :: "imageUrlBuilder \<Rightarrow> builderCall \<Rightarrow> imageUrlBuilder" where
  "call b c = b\<lparr>builder_calls := builder_calls b @ [c]\<rparr>"

text \<open>The arguments of the resolver; each defaults to \<open>null\<close>, here \<open>None\<close>.\<close>

record resolveArgs =
  width :: "int option"
  height :: "int option"
  automaticFormat :: "bool option"
  format :: "string option"
  lossless :: "bool option"
  quality :: "int option"
  dpr :: "int option"

text \<open>
  \<open>toLowerCase\<close> on the letters A to Z (codes 65 to 90), which differ from their
  lower-case forms by the bit of value 32. The resolver compares the lowered string only
  with literals made of the characters \<open>a-j, m, p, w, 8, /\<close>, and no character outside
  A to Z lowers to one of these, so the comparisons come out as in the source.
\<close>

fun toLowerCase_char :: "char \<Rightarrow> char" where
  "toLowerCase_char (Char b0 b1 b2 b3 b4 b5 b6 b7) =
     (let n = (of_char (Char b0 b1 b2 b3 b4 b5 b6 b7) :: nat)
      in if 65 \<le> n \<and> n \<le> 90 then Char b0 b1 b2 b3 b4 True b6 b7
         else Char b0 b1 b2 b3 b4 b5 b6 b7)"

definition toLowerCase :: "string \<Rightarrow> string" where
  "toLowerCase str = map toLowerCase_char str"

definition resolve_automaticFormat :: "imageUrlBuilder \<Rightarrow> string \<Rightarrow> imageUrlBuilder" where
  "resolve_automaticFormat urlBuilder type =
     (let t = toLowerCase type
      in if t = ''image/gif'' then call urlBuilder (WithAutomaticFormat Gif)
         else if t = ''image/jpeg'' then call urlBuilder (WithAutomaticFormat Jpg)
         else if t = ''image/png'' then call urlBuilder (WithAutomaticFormat Png)
         else urlBuilder)"

definition resolve_format :: "imageUrlBuilder \<Rightarrow> string \<Rightarrow> imageUrlBuilder" where
  "resolve_format urlBuilder fmt =
     (let f = toLowerCase fmt
      in if f = ''gif'' then call urlBuilder (WithFormat Gif)
         else if f = ''jpg'' \<or> f = ''jpeg'' then call urlBuilder (WithFormat Jpg)
         else if f = ''pjpg'' \<or> f = ''pjpeg'' then call urlBuilder (WithFormat Pjpg)
         else if f = ''png'' then call urlBuilder (WithFormat Png)
         else if f = ''png8'' then call urlBuilder (WithFormat Png8)
         else if f = ''webp'' then call urlBuilder (WithFormat Webp)
         else urlBuilder)"

definition resolve_builder :: "asset \<Rightarrow> resolveArgs \<Rightarrow> imageUrlBuilder" where
  "resolve_builder obj args =
     (let url = asset_url obj;
          type = asset_type obj;
          b0 = newImageUrlBuilder url;
          b1 = (case width args of None \<Rightarrow> b0 | Some w \<Rightarrow> call b0 (WithWidth w));
          b2 = (case height args of None \<Rightarrow> b1 | Some h \<Rightarrow> call b1 (WithHeight h));
          b3 = (case automaticFormat args of
                  None \<Rightarrow> b2
                | Some a \<Rightarrow> if a then resolve_automaticFormat b2 type else b2);
          b4 = (case format args of None \<Rightarrow> b3 | Some fmt \<Rightarrow> resolve_format b3 fmt);
          b5 = (case lossless args of
                  None \<Rightarrow> b4
                | Some l \<Rightarrow> let compression = (if l then Lossless else Lossy)
                            in call b4 (WithCompression compression));
          b6 = (case quality args of None \<Rightarrow> b5 | Some q \<Rightarrow> call b5 (WithQuality q));
          b7 = (case dpr args of None \<Rightarrow> b6 | Some d \<Rightarrow> call b6 (WithDpr d))
      in b7)"

definition resolve :: "(imageUrlBuilder \<Rightarrow> string) \<Rightarrow> asset \<Rightarrow> resolveArgs \<Rightarrow> string" where
  "resolve getUrl obj args = getUrl (resolve_builder obj args)"

section \<open>Specification-side definitions\<close>

text \<open>
  A term forest is well formed when every list of terms in it is present: the list
  itself and, at every depth, the list of child terms of each term.
\<close>

fun termsPresent :: "taxonomyTerm list option \<Rightarrow> bool"
  and termsPresent_list :: "taxonomyTerm list \<Rightarrow> bool" where
  "termsPresent None = False"
| "termsPresent (Some ts) = termsPresent_list ts"
| "termsPresent_list [] = True"
| "termsPresent_list (Term i n sl tt # ts) = (termsPresent tt \<and> termsPresent_list ts)"

text \<open>
  The pre-order walk of a forest, as the specification describes it: a term's node,
  holding the ids of its direct children, then the walk of its children, then the
  walk of its later siblings.
\<close>

fun preorder :: "taxonomyTerm list \<Rightarrow> node list" where
  "preorder [] = []"
| "preorder (Term i n sl None # ts) =
     TermNode \<lparr>termNode_id = i, termNode_name = n, termNode_slug = sl, termNode_terms = []\<rparr>
       # preorder ts"
| "preorder (Term i n sl (Some children) # ts) =
     TermNode \<lparr>termNode_id = i, termNode_name = n, termNode_slug = sl,
               termNode_terms = map term_id children\<rparr>
       # preorder children @ preorder ts"

text \<open>
  The calls the url resolver makes, group by group, in the words of the specification.
  The media type and the format string are compared in lower case.
\<close>

definition formatOfMediaType :: "string \<Rightarrow> ImageFormatEnum option" where
  "formatOfMediaType type =
     (let t = toLowerCase type
      in if t = ''image/gif'' then Some Gif
         else if t = ''image/jpeg'' then Some Jpg
         else if t = ''image/png'' then Some Png
         else None)"

definition formatOfString :: "string \<Rightarrow> ImageFormatEnum option" where
  "formatOfString fmt =
     (let f = toLowerCase fmt
      in if f = ''gif'' then Some Gif
         else if f = ''jpg'' \<or> f = ''jpeg'' then Some Jpg
         else if f = ''pjpg'' \<or> f = ''pjpeg'' then Some Pjpg
         else if f = ''png'' then Some Png
         else if f = ''png8'' then Some Png8
         else if f = ''webp'' then Some Webp
         else None)"

definition optCall :: "('a \<Rightarrow> builderCall) \<Rightarrow> 'a option \<Rightarrow> builderCall list" where
  "optCall f x = (case x of None \<Rightarrow> [] | Some v \<Rightarrow> [f v])"

definition dimensionCalls :: "resolveArgs \<Rightarrow> builderCall list" where
  "dimensionCalls args = optCall WithWidth (width args) @ optCall WithHeight (height args)"

definition automaticFormatCalls :: "asset \<Rightarrow> resolveArgs \<Rightarrow> builderCall list" where
  "automaticFormatCalls obj args =
     (if automaticFormat args = Some True
      then optCall WithAutomaticFormat (formatOfMediaType (asset_type obj)) else [])"

definition explicitFormatCalls :: "resolveArgs \<Rightarrow> builderCall list" where
  "explicitFormatCalls args =
     (case format args of None \<Rightarrow> [] | Some fmt \<Rightarrow> optCall WithFormat (formatOfString fmt))"

definition tailCalls :: "resolveArgs \<Rightarrow> builderCall list" where
  "tailCalls args =
     optCall (\<lambda>l. WithCompression (if l then Lossless else Lossy)) (lossless args)
     @ optCall WithQuality (quality args) @ optCall WithDpr (dpr args)"

text \<open>A linked-item field cut down to its first linked item.\<close>

definition keepFirst :: "linkedItemField \<Rightarrow> linkedItemField" where
  "keepFirst f = (case linkedItems f of [] \<Rightarrow> f | li # rest \<Rightarrow> f\<lparr>linkedItems := [li]\<rparr>)"

text \<open>The ids held by a collection, and the ids of the assets a node refers to.\<close>

definition idsOf :: "store \<Rightarrow> string \<Rightarrow> string set" where
  "idsOf s t = node_id ` set (nodesOf s t)"

definition assetIds :: "contentNode \<Rightarrow> string set" where
  "assetIds node = asset_id ` (\<Union>f\<in>set (assetFields node). set (assets f))"

text \<open>The store after the three reference passes of \<open>addContentNode\<close>.\<close>

definition resolved :: "kenticoKontentSource \<Rightarrow> store \<Rightarrow> string \<Rightarrow> contentNode \<Rightarrow> store" where
  "resolved self s c node =
     addAssetFields self (addTaxonomyFields self (addLinkedItemFields s c node) c node) c node"

definition typeNameOf :: "contentItem \<Rightarrow> string" where
  "typeNameOf x = item_typeName (item (createNode x))"

definition idOf :: "contentItem \<Rightarrow> string" where
  "idOf x = item_id (item (createNode x))"

text \<open>
  The content items one content type hands to \<open>addContentItemNodes\<close>, in order: none
  when the type has no entries, else the linked items followed by the entries.
\<close>

definition assembled :: "kenticoKontentSource \<Rightarrow> string \<Rightarrow> contentItem list" where
  "assembled self codename =
     (let content = getContent (deliveryClient self) codename
      in if items content = [] then []
         else map snd (content_linkedItems content) @ items content)"

text \<open>
  The data model's assumptions on a set \<open>U\<close> of content items: the Asset collection,
  the ItemLink collection, the collections of the taxonomy groups and the collections
  of the content items are different collections, and an id identifies a content item,
  so two items of one type with one id carry the same asset fields.
\<close>

definition separateNames :: "kenticoKontentSource \<Rightarrow> contentItem set \<Rightarrow> bool" where
  "separateNames self U \<longleftrightarrow>
     itemLinkTypeName self \<noteq> assetTypeName self \<and>
     (\<forall>x\<in>U. typeNameOf x \<noteq> assetTypeName self \<and> typeNameOf x \<noteq> itemLinkTypeName self)"

definition taxonomyApart :: "kenticoKontentSource \<Rightarrow> contentItem set \<Rightarrow> bool" where
  "taxonomyApart self U \<longleftrightarrow>
     (\<forall>g\<in>set (getTaxonomyGroups (deliveryClient self)).
        taxonomyItem_typeName g \<noteq> assetTypeName self \<and>
        (\<forall>x\<in>U. typeNameOf x \<noteq> taxonomyItem_typeName g))"

definition sameAssets :: "contentItem set \<Rightarrow> bool" where
  "sameAssets U \<longleftrightarrow>
     (\<forall>x\<in>U. \<forall>y\<in>U. typeNameOf x = typeNameOf y \<and> idOf x = idOf y \<longrightarrow>
        assetFields (createNode x) = assetFields (createNode y))"

text \<open>
  The invariant of the assembly loop, for the items \<open>P\<close> handled so far out of \<open>U\<close>:
  the Asset collection holds no id twice, it holds the assets of every item handled,
  and an item of \<open>U\<close> found in its collection has been handled.
\<close>

definition assetInv ::
    "kenticoKontentSource \<Rightarrow> contentItem set \<Rightarrow> contentItem set \<Rightarrow> store \<Rightarrow> bool" where
  "assetInv self U P s \<longleftrightarrow>
     distinct (map node_id (nodesOf s (assetTypeName self))) \<and>
     (\<forall>x\<in>P. assetIds (createNode x) \<subseteq> idsOf s (assetTypeName self)) \<and>
     (\<forall>x\<in>U. idOf x \<in> idsOf s (typeNameOf x) \<longrightarrow>
        (\<exists>y\<in>P. typeNameOf y = typeNameOf x \<and> idOf y = idOf x))"

section \<open>Example inputs\<close>

definition termD :: taxonomyTerm where "termD = Term ''D'' ''d'' ''d'' (Some [])"
definition termC :: taxonomyTerm where "termC = Term ''C'' ''c'' ''c'' (Some [])"
definition termB :: taxonomyTerm where "termB = Term ''B'' ''b'' ''b'' (Some [termD])"
definition termA :: taxonomyTerm where "termA = Term ''A'' ''a'' ''a'' (Some [termB, termC])"


definition assetPng :: asset where
  "assetPng = \<lparr>asset_id = ''A1'', asset_url = ''https://assets.example/a1.png'',
               asset_type = ''image/png''\<rparr>"

definition argsBoth :: resolveArgs where
  "argsBoth = \<lparr>width = Some 300, height = None, automaticFormat = Some True,
               format = Some ''WebP'', lossless = None, quality = None, dpr = None\<rparr>"

text \<open>
  An article with an author field whose linked items are of two types, an empty
  linked-item field and an empty asset field; its author, who shares the article's
  image; a quote, which is a component and has no fields.
\<close>

definition itemArticle :: item where
  "itemArticle = \<lparr>item_id = ''i1'', item_typeName = ''Article'', item_path = ''/articles/one'',
                  isComponent = False\<rparr>"

definition itemAuthor :: item where
  "itemAuthor = \<lparr>item_id = ''i2'', item_typeName = ''Author'', item_path = ''/authors/two'',
                 isComponent = False\<rparr>"

definition itemQuote :: item where
  "itemQuote = \<lparr>item_id = ''i3'', item_typeName = ''Quote'', item_path = [],
                isComponent = True\<rparr>"

definition fieldAuthor :: linkedItemField where
  "fieldAuthor = \<lparr>linkedItemField_fieldName = ''author'',
                  linkedItems = [\<lparr>linkedItem_id = ''i2'', linkedItem_typeName = ''Author''\<rparr>,
                                 \<lparr>linkedItem_id = ''i3'', linkedItem_typeName = ''Quote''\<rparr>]\<rparr>"

definition fieldRelated :: linkedItemField where
  "fieldRelated = \<lparr>linkedItemField_fieldName = ''related'', linkedItems = []\<rparr>"

definition fieldHero :: assetField where
  "fieldHero = \<lparr>assetField_fieldName = ''hero'', assets = [assetPng]\<rparr>"

definition fieldGallery :: assetField where
  "fieldGallery = \<lparr>assetField_fieldName = ''gallery'', assets = []\<rparr>"

definition fieldPhoto :: assetField where
  "fieldPhoto = \<lparr>assetField_fieldName = ''photo'', assets = [assetPng]\<rparr>"

definition nodeArticle :: contentNode where
  "nodeArticle = \<lparr>item = itemArticle, linkedItemFields = [fieldAuthor, fieldRelated],
                  taxonomyFields = [\<lparr>taxonomyField_fieldName = ''tags'', taxonomyGroup = ''topics''\<rparr>],
                  assetFields = [fieldHero, fieldGallery]\<rparr>"

definition nodeAuthor :: contentNode where
  "nodeAuthor = \<lparr>item = itemAuthor, linkedItemFields = [], taxonomyFields = [],
                 assetFields = [fieldPhoto]\<rparr>"

definition nodeQuote :: contentNode where
  "nodeQuote = \<lparr>item = itemQuote, linkedItemFields = [], taxonomyFields = [],
                assetFields = []\<rparr>"

definition entryArticle :: contentItem where "entryArticle = \<lparr>createNode = nodeArticle\<rparr>"
definition entryAuthor :: contentItem where "entryAuthor = \<lparr>createNode = nodeAuthor\<rparr>"
definition entryQuote :: contentItem where "entryQuote = \<lparr>createNode = nodeQuote\<rparr>"

text \<open>
  A delivery client with three content types: articles, whose side table holds the
  author and the quote; authors; and pages, with no entry but a side table.
\<close>

definition contentArticle :: content where
  "contentArticle = \<lparr>items = [entryArticle],
                     content_linkedItems = [(''author_two'', entryAuthor), (''quote_three'', entryQuote)]\<rparr>"

definition contentAuthor :: content where
  "contentAuthor = \<lparr>items = [entryAuthor], content_linkedItems = []\<rparr>"

definition contentPage :: content where
  "contentPage = \<lparr>items = [], content_linkedItems = [(''author_two'', entryAuthor)]\<rparr>"

definition exampleSource :: kenticoKontentSource where
  "exampleSource =
     \<lparr>deliveryClient =
        \<lparr>getContentTypes = [''article'', ''author'', ''page''],
         getTaxonomyGroups =
           [\<lparr>taxonomyItem_typeName = ''TaxonomyTopics'', taxonomyItem_terms = Some [termA]\<rparr>],
         getContent = (\<lambda>codename. if codename = ''article'' then contentArticle
                                   else if codename = ''author'' then contentAuthor
                                   else contentPage)\<rparr>,
      contentItemFactory = \<lparr>getAssetTypeName = ''Asset'', getItemLinkTypeName = ''ItemLink''\<rparr>,
      taxonomyItemFactory = \<lparr>getTypeName = (\<lambda>codename. ''Taxonomy'' @ codename)\<rparr>\<rparr>"

text \<open>A store that holds the Article collection, still empty.\<close>

definition storeArticle :: store where
  "storeArticle = getCollection emptyStore ''Article''"

section \<open>Taxonomy terms\<close>

lemma addTaxonomyTermNodes_preorder_aux:
  "termsPresent terms \<Longrightarrow>
     addTaxonomyTermNodes col terms = Inr (col\<lparr>data := data col @ preorder (the terms)\<rparr>)"
  "termsPresent_list ts \<Longrightarrow>
     addTaxonomyTermNodes_loop col ts = Inr (col\<lparr>data := data col @ preorder ts\<rparr>)"
proof (induction col terms and col ts rule: addTaxonomyTermNodes_addTaxonomyTermNodes_loop.induct)
  case (2 col ts)
  then show ?case by (cases ts) auto
next
  case (5 col i n sl children ts)
  then show ?case by (simp add: collection_addNode_def termNodeOf_def)
qed simp_all





text \<open>
  C7. Term insertion is pre-order depth-first. On a well-formed forest
  \<open>addTaxonomyTermNodes\<close> appends to the collection exactly the pre-order walk of the
  forest: each term's node comes before the nodes of its descendants, the whole
  subtree of a term comes before its next sibling, and a node's \<open>terms\<close> attribute
  holds the ids of the term's direct children.
\<close>

theorem addTaxonomyTermNodes_preorder:
  "termsPresent (Some ts) \<Longrightarrow>
     addTaxonomyTermNodes col (Some ts) = Inr (col\<lparr>data := data col @ preorder ts\<rparr>)"
  using addTaxonomyTermNodes_preorder_aux(1) [of "Some ts" col] by simp

theorem addTaxonomyTermNodes_preorder_witness:
  "termsPresent (Some [termA]) \<and>
   (case addTaxonomyTermNodes emptyCollection (Some [termA]) of
      Inl e \<Rightarrow> False
    | Inr col' \<Rightarrow>
        map node_id (data col') = [''A'', ''B'', ''D'', ''C''] \<and>
        data col' ! 0 = TermNode \<lparr>termNode_id = ''A'', termNode_name = ''a'',
                                  termNode_slug = ''a'', termNode_terms = [''B'', ''C'']\<rparr> \<and>
        data col' ! 1 = TermNode \<lparr>termNode_id = ''B'', termNode_name = ''b'',
                                  termNode_slug = ''b'', termNode_terms = [''D'']\<rparr>)"
proof -
  have p: "termsPresent (Some [termA])"
    by (simp add: termA_def termB_def termC_def termD_def)
  show ?thesis
    using p addTaxonomyTermNodes_preorder [OF p, of emptyCollection]
    by (simp add: termA_def termB_def termC_def termD_def emptyCollection_def)
qed

section \<open>The url resolver\<close>

lemma calls_resolve_automaticFormat:
  "builder_calls (resolve_automaticFormat b type) =
     builder_calls b @ optCall WithAutomaticFormat (formatOfMediaType type)"
  by (simp add: resolve_automaticFormat_def formatOfMediaType_def optCall_def call_def Let_def)

lemma calls_resolve_format:
  "builder_calls (resolve_format b fmt) = builder_calls b @ optCall WithFormat (formatOfString fmt)"
  by (simp add: resolve_format_def formatOfString_def optCall_def call_def Let_def)

text \<open>
  C2 (amended). Format selection is not exclusive. The resolver's calls are, in this
  order: the dimensions; the automatic format, only if \<open>automaticFormat\<close> is true,
  chosen from the asset's media type (gif, jpeg and png, anything else none); the
  explicit format, whenever a format string is given and whatever \<open>automaticFormat\<close>
  is, mapped in lower case to a supported format (anything else none); then
  compression, quality and dpr. So a format string that names a supported format is
  always applied.
\<close>

theorem resolve_builder_calls:
  "builder_calls (resolve_builder obj args) =
     dimensionCalls args @ automaticFormatCalls obj args @ explicitFormatCalls args
       @ tailCalls args \<and>
   (\<forall>fmt e. format args = Some fmt \<and> formatOfString fmt = Some e \<longrightarrow>
      WithFormat e \<in> set (builder_calls (resolve_builder obj args)))"
proof -
  have c: "builder_calls (resolve_builder obj args) =
     dimensionCalls args @ automaticFormatCalls obj args @ explicitFormatCalls args
       @ tailCalls args"
    by (simp add: resolve_builder_def Let_def dimensionCalls_def automaticFormatCalls_def
        explicitFormatCalls_def tailCalls_def calls_resolve_automaticFormat calls_resolve_format
        optCall_def call_def newImageUrlBuilder_def
      split: option.splits)
  show ?thesis
    unfolding c by (simp add: explicitFormatCalls_def optCall_def)
qed

theorem resolve_builder_calls_witness:
  "automaticFormat argsBoth = Some True \<and> format argsBoth = Some ''WebP'' \<and>
   formatOfString ''WebP'' = Some Webp \<and>
   builder_calls (resolve_builder assetPng argsBoth) =
     [WithWidth 300, WithAutomaticFormat Png, WithFormat Webp]"
  using resolve_builder_calls [of assetPng argsBoth]
  by (simp add: assetPng_def argsBoth_def dimensionCalls_def automaticFormatCalls_def
        explicitFormatCalls_def tailCalls_def optCall_def formatOfMediaType_def
        formatOfString_def toLowerCase_def)

text \<open>
  C2 (as claimed, refuted). With \<open>automaticFormat\<close> true and the format string
  \<open>WebP\<close>, the explicit format is applied all the same, after the automatic one.
\<close>

theorem resolve_explicit_format_counterexample:
  "automaticFormat argsBoth = Some True \<and>
   WithFormat Webp \<in> set (builder_calls (resolve_builder assetPng argsBoth))"
  by (simp add: resolve_builder_def assetPng_def argsBoth_def resolve_automaticFormat_def
        resolve_format_def call_def newImageUrlBuilder_def toLowerCase_def)

section \<open>Effects of the store operations\<close>

lemma dom_getCollection:
  "dom (collections (getCollection s t)) = insert t (dom (collections s))"
  by (auto simp: getCollection_def store_addCollection_def split: option.splits)

lemma dom_addReference: "dom (collections (addReference s c f ty)) = dom (collections s)"
  by (auto simp: addReference_def split: option.splits if_splits)

lemma dom_addNode: "dom (collections (addNode s c n)) = dom (collections s)"
  by (auto simp: addNode_def split: option.splits if_splits)

lemma nodesOf_getCollection: "nodesOf (getCollection s t) c = nodesOf s c"
  by (simp add: nodesOf_def getCollection_def store_addCollection_def emptyCollection_def
        split: option.splits)

lemma nodesOf_addReference: "nodesOf (addReference s c f ty) t = nodesOf s t"
  by (simp add: nodesOf_def addReference_def split: option.splits)

lemma nodesOf_addNode:
  "nodesOf (addNode s c n) t =
     (if t = c \<and> c \<in> dom (collections s) then nodesOf s c @ [n] else nodesOf s t)"
  by (auto simp: nodesOf_def addNode_def split: option.splits)

lemma refsOf_getCollection: "refsOf (getCollection s t) c = refsOf s c"
  by (simp add: refsOf_def getCollection_def store_addCollection_def emptyCollection_def
        split: option.splits)

lemma refsOf_addNode: "refsOf (addNode s c n) t = refsOf s t"
  by (simp add: refsOf_def addNode_def split: option.splits)

lemma refsOf_addReference:
  "refsOf (addReference s c f ty) t =
     (if t = c \<and> c \<in> dom (collections s) then (refsOf s c)(f \<mapsto> ty) else refsOf s t)"
  by (auto simp: refsOf_def addReference_def split: option.splits)

lemma schemaResolvers_getCollection:
  "schemaResolvers (getCollection s t) = schemaResolvers s"
  by (simp add: getCollection_def store_addCollection_def split: option.splits)

lemma nodesOf_emptyStore: "nodesOf emptyStore c = []"
  by (simp add: nodesOf_def emptyStore_def)

lemma refsOf_emptyStore: "refsOf emptyStore c fn = None"
  by (simp add: refsOf_def emptyStore_def)

lemma findNode_None_iff: "findNode s c i = None \<longleftrightarrow> i \<notin> node_id ` set (nodesOf s c)"
  by (auto simp: findNode_def find_None_iff)

section \<open>Linked item fields\<close>

lemma dom_addLinkedItemFields_loop:
  "dom (collections (addLinkedItemFields_loop s c fs)) = dom (collections s)"
  by (induction s c fs rule: addLinkedItemFields_loop.induct) (simp_all add: Let_def dom_addReference)

lemma nodesOf_addLinkedItemFields_loop:
  "nodesOf (addLinkedItemFields_loop s c fs) t = nodesOf s t"
  by (induction s c fs rule: addLinkedItemFields_loop.induct)
     (simp_all add: Let_def nodesOf_addReference)

lemma addLinkedItemFields_loop_filter:
  "addLinkedItemFields_loop s c (filter (\<lambda>f. linkedItems f \<noteq> []) fs) =
     addLinkedItemFields_loop s c fs"
  by (induction s c fs rule: addLinkedItemFields_loop.induct) (simp_all add: Let_def)

lemma refsOf_addLinkedItemFields_loop_other:
  "\<forall>f\<in>set fs. linkedItemField_fieldName f = fn \<longrightarrow> linkedItems f = [] \<Longrightarrow>
     refsOf (addLinkedItemFields_loop s c fs) t fn = refsOf s t fn"
  by (induction s c fs rule: addLinkedItemFields_loop.induct)
     (auto simp: Let_def refsOf_addReference)

lemma refsOf_addLinkedItemFields_loop_first:
  "c \<in> dom (collections s) \<Longrightarrow> distinct (map linkedItemField_fieldName fs) \<Longrightarrow>
   f \<in> set fs \<Longrightarrow> linkedItems f = li # rest \<Longrightarrow>
     refsOf (addLinkedItemFields_loop s c fs) c (linkedItemField_fieldName f) =
       Some (linkedItem_typeName li)"
proof (induction s c fs rule: addLinkedItemFields_loop.induct)
  case (1 s c)
  then show ?case by simp
next
  case (2 s c g fs)
  show ?case
  proof (cases "g = f")
    case True
    have "\<forall>h\<in>set fs. linkedItemField_fieldName h = linkedItemField_fieldName f \<longrightarrow> linkedItems h = []"
      using "2.prems"(2) True by (auto simp: image_iff)
    then show ?thesis
      using True "2.prems"
      by (simp add: Let_def refsOf_addLinkedItemFields_loop_other refsOf_addReference)
  next
    case False
    then have "f \<in> set fs" using "2.prems" by simp
    then show ?thesis
      using "2.IH" "2.prems" by (auto simp: Let_def dom_addReference)
  qed
qed

lemma addLinkedItemFields_loop_keepFirst:
  "addLinkedItemFields_loop s c (map keepFirst fs) = addLinkedItemFields_loop s c fs"
proof (induction s c fs rule: addLinkedItemFields_loop.induct)
  case (1 s c)
  then show ?case by simp
next
  case (2 s c g fs)
  then show ?case by (cases "linkedItems g") (simp_all add: Let_def keepFirst_def)
qed

section \<open>Taxonomy fields\<close>

lemma dom_addTaxonomyFields_loop:
  "dom (collections (addTaxonomyFields_loop self s c fs)) = dom (collections s)"
  by (induction self s c fs rule: addTaxonomyFields_loop.induct) (simp_all add: Let_def dom_addReference)

lemma nodesOf_addTaxonomyFields_loop:
  "nodesOf (addTaxonomyFields_loop self s c fs) t = nodesOf s t"
  by (induction self s c fs rule: addTaxonomyFields_loop.induct)
     (simp_all add: Let_def nodesOf_addReference)

section \<open>Asset fields\<close>

lemma dom_addAssetFields_assets:
  "dom (collections (addAssetFields_assets s a as)) = dom (collections s)"
  by (induction s a as rule: addAssetFields_assets.induct)
     (simp_all add: dom_addNode split: option.splits)

lemma refsOf_addAssetFields_assets:
  "refsOf (addAssetFields_assets s a as) t = refsOf s t"
  by (induction s a as rule: addAssetFields_assets.induct)
     (simp_all add: refsOf_addNode split: option.splits)

lemma dom_addAssetFields_loop:
  "dom (collections (addAssetFields_loop s a c fs)) = dom (collections s)"
  by (induction s a c fs rule: addAssetFields_loop.induct)
     (simp_all add: Let_def dom_addReference dom_addAssetFields_assets)

lemma refsOf_addAssetFields_loop_keep:
  "c \<in> dom (collections s) \<Longrightarrow> refsOf s c fn = Some a \<Longrightarrow>
     refsOf (addAssetFields_loop s a c fs) c fn = Some a"
  by (induction s a c fs rule: addAssetFields_loop.induct)
     (simp_all add: Let_def dom_addReference dom_addAssetFields_assets refsOf_addReference
        refsOf_addAssetFields_assets)

lemma refsOf_addAssetFields_loop:
  "c \<in> dom (collections s) \<Longrightarrow> f \<in> set fs \<Longrightarrow>
     refsOf (addAssetFields_loop s a c fs) c (assetField_fieldName f) = Some a"
proof (induction s a c fs rule: addAssetFields_loop.induct)
  case (1 s typeName c)
  then show ?case by simp
next
  case (2 s typeName c g fs)
  show ?case
  proof (cases "g = f")
    case True
    then show ?thesis
      using "2.prems"(1)
      by (simp add: Let_def refsOf_addAssetFields_loop_keep dom_addReference
            dom_addAssetFields_assets refsOf_addReference)
  next
    case False
    then show ?thesis
      using "2.IH" "2.prems" by (simp add: Let_def dom_addReference dom_addAssetFields_assets)
  qed
qed

lemma findNode_None_idsOf: "findNode s c i = None \<longleftrightarrow> i \<notin> idsOf s c"
  by (simp add: findNode_None_iff idsOf_def)

section \<open>Nodes added by the asset pass\<close>

lemma nodesOf_addAssetFields_assets_other:
  "t \<noteq> a \<Longrightarrow> nodesOf (addAssetFields_assets s a as) t = nodesOf s t"
  by (induction s a as rule: addAssetFields_assets.induct)
     (simp_all add: nodesOf_addNode split: option.splits)

lemma nodesOf_addAssetFields_assets_extends:
  "\<exists>ys. nodesOf (addAssetFields_assets s a as) t = nodesOf s t @ ys"
proof (induction s a as rule: addAssetFields_assets.induct)
  case (1 s assetCollection)
  then show ?case by simp
next
  case (2 s assetCollection asset as)
  then show ?case
    by (cases "findNode s assetCollection (asset_id asset)") (auto simp: nodesOf_addNode)
qed

lemma idsOf_addAssetFields_assets:
  "a \<in> dom (collections s) \<Longrightarrow>
     idsOf (addAssetFields_assets s a as) a = idsOf s a \<union> asset_id ` set as"
proof (induction s a as rule: addAssetFields_assets.induct)
  case (1 s assetCollection)
  then show ?case by simp
next
  case (2 s assetCollection asset as)
  show ?case
  proof (cases "findNode s assetCollection (asset_id asset)")
    case None
    then show ?thesis
      using 2 by (auto simp: dom_addNode idsOf_def nodesOf_addNode)
  next
    case (Some e)
    then have "asset_id asset \<in> idsOf s assetCollection"
      using findNode_None_idsOf [of s assetCollection "asset_id asset"] by simp
    then show ?thesis using 2 Some by auto
  qed
qed

lemma distinct_addAssetFields_assets:
  "distinct (map node_id (nodesOf s a)) \<Longrightarrow>
     distinct (map node_id (nodesOf (addAssetFields_assets s a as) a))"
proof (induction s a as rule: addAssetFields_assets.induct)
  case (1 s assetCollection)
  then show ?case by simp
next
  case (2 s assetCollection asset as)
  show ?case
  proof (cases "findNode s assetCollection (asset_id asset)")
    case None
    then have "asset_id asset \<notin> node_id ` set (nodesOf s assetCollection)"
      by (simp add: findNode_None_iff)
    then have "distinct (map node_id (nodesOf (addNode s assetCollection (AssetNode asset)) assetCollection))"
      using "2.prems" by (simp add: nodesOf_addNode)
    then show ?thesis using "2.IH"(1) None by simp
  next
    case (Some e)
    then show ?thesis using 2 by simp
  qed
qed

lemma nodesOf_addAssetFields_loop_other:
  "t \<noteq> a \<Longrightarrow> nodesOf (addAssetFields_loop s a c fs) t = nodesOf s t"
  by (induction s a c fs rule: addAssetFields_loop.induct)
     (simp_all add: Let_def nodesOf_addReference nodesOf_addAssetFields_assets_other)

lemma nodesOf_addAssetFields_loop_extends:
  "\<exists>ys. nodesOf (addAssetFields_loop s a c fs) t = nodesOf s t @ ys"
proof (induction s a c fs rule: addAssetFields_loop.induct)
  case (1 s typeName c)
  then show ?case by simp
next
  case (2 s typeName c assetField fs)
  obtain ys where "nodesOf (addAssetFields_assets s typeName (assets assetField)) t = nodesOf s t @ ys"
    using nodesOf_addAssetFields_assets_extends by blast
  then show ?case using "2.IH" [OF refl refl] by (auto simp: Let_def nodesOf_addReference)
qed

lemma idsOf_addReference: "idsOf (addReference s c f ty) t = idsOf s t"
  by (simp add: idsOf_def nodesOf_addReference)

lemma idsOf_addAssetFields_loop:
  "a \<in> dom (collections s) \<Longrightarrow>
     idsOf (addAssetFields_loop s a c fs) a =
       idsOf s a \<union> asset_id ` (\<Union>f\<in>set fs. set (assets f))"
proof (induction s a c fs rule: addAssetFields_loop.induct)
  case (1 s typeName c)
  then show ?case by simp
next
  case (2 s typeName c assetField fs)
  then show ?case
    by (auto simp: Let_def dom_addReference dom_addAssetFields_assets idsOf_addReference
          idsOf_addAssetFields_assets)
qed

lemma distinct_addAssetFields_loop:
  "distinct (map node_id (nodesOf s a)) \<Longrightarrow>
     distinct (map node_id (nodesOf (addAssetFields_loop s a c fs) a))"
  by (induction s a c fs rule: addAssetFields_loop.induct)
     (simp_all add: Let_def nodesOf_addReference distinct_addAssetFields_assets)

lemma dom_addAssetFields:
  "dom (collections (addAssetFields self s c node)) = insert (assetTypeName self) (dom (collections s))"
  by (simp add: addAssetFields_def Let_def dom_addAssetFields_loop dom_getCollection)

lemma nodesOf_addAssetFields_other:
  "t \<noteq> assetTypeName self \<Longrightarrow> nodesOf (addAssetFields self s c node) t = nodesOf s t"
  by (simp add: addAssetFields_def Let_def nodesOf_addAssetFields_loop_other nodesOf_getCollection)

lemma nodesOf_addAssetFields_extends:
  "\<exists>ys. nodesOf (addAssetFields self s c node) t = nodesOf s t @ ys"
  using nodesOf_addAssetFields_loop_extends
    [of "getCollection s (assetTypeName self)" "assetTypeName self" c "assetFields node" t]
  by (simp add: addAssetFields_def Let_def nodesOf_getCollection)

lemma idsOf_getCollection: "idsOf (getCollection s c) t = idsOf s t"
  by (simp add: idsOf_def nodesOf_getCollection)

lemma idsOf_addAssetFields:
  "idsOf (addAssetFields self s c node) (assetTypeName self) =
     idsOf s (assetTypeName self) \<union> assetIds node"
  by (simp add: addAssetFields_def Let_def idsOf_addAssetFields_loop dom_getCollection
        assetIds_def idsOf_getCollection)

lemma distinct_addAssetFields:
  "distinct (map node_id (nodesOf s (assetTypeName self))) \<Longrightarrow>
     distinct (map node_id (nodesOf (addAssetFields self s c node) (assetTypeName self)))"
  by (simp add: addAssetFields_def Let_def distinct_addAssetFields_loop nodesOf_getCollection)

section \<open>Item links\<close>

lemma dom_addItemLinkNode:
  "dom (collections (addItemLinkNode self s i)) = insert (itemLinkTypeName self) (dom (collections s))"
  by (simp add: addItemLinkNode_def Let_def dom_addNode dom_getCollection)

lemma nodesOf_addItemLinkNode:
  "nodesOf (addItemLinkNode self s i) t =
     (if t = itemLinkTypeName self
      then nodesOf s t @ [ItemLinkNode \<lparr>itemLink_id = item_id i, itemLink_typeName = item_typeName i,
                                          itemLink_path = item_path i\<rparr>]
      else nodesOf s t)"
  by (simp add: addItemLinkNode_def Let_def nodesOf_addNode nodesOf_getCollection dom_getCollection)

lemma schemaResolvers_addNode: "schemaResolvers (addNode s c n) = schemaResolvers s"
  by (simp add: addNode_def split: option.splits)

section \<open>addContentNode\<close>

lemma addContentNode_found:
  "findNode s c (item_id (item node)) = Some e \<Longrightarrow> addContentNode self s c node = (s, e)"
  by (simp add: addContentNode_def)

lemma addContentNode_new:
  "findNode s c (item_id (item node)) = None \<Longrightarrow>
     addContentNode self s c node =
       (let s4 = addNode (resolved self s c node) c (ContentNode (item node))
        in if isComponent (item node) then s4 else addItemLinkNode self s4 (item node),
        ContentNode (item node))"
  by (simp add: addContentNode_def resolved_def Let_def)

lemma dom_resolved:
  "dom (collections (resolved self s c node)) = insert (assetTypeName self) (dom (collections s))"
  by (simp add: resolved_def dom_addAssetFields addTaxonomyFields_def addLinkedItemFields_def
        dom_addTaxonomyFields_loop dom_addLinkedItemFields_loop)

lemma nodesOf_resolved_other:
  "t \<noteq> assetTypeName self \<Longrightarrow> nodesOf (resolved self s c node) t = nodesOf s t"
  by (simp add: resolved_def nodesOf_addAssetFields_other addTaxonomyFields_def
        addLinkedItemFields_def nodesOf_addTaxonomyFields_loop nodesOf_addLinkedItemFields_loop)

lemma nodesOf_resolved_extends:
  "\<exists>ys. nodesOf (resolved self s c node) t = nodesOf s t @ ys"
  using nodesOf_addAssetFields_extends
    [of self "addTaxonomyFields self (addLinkedItemFields s c node) c node" c node t]
  by (simp add: resolved_def addTaxonomyFields_def
        addLinkedItemFields_def nodesOf_addTaxonomyFields_loop nodesOf_addLinkedItemFields_loop)

lemma idsOf_resolved:
  "idsOf (resolved self s c node) (assetTypeName self) =
     idsOf s (assetTypeName self) \<union> assetIds node"
  by (simp add: resolved_def idsOf_addAssetFields) 
     (simp add: idsOf_def addTaxonomyFields_def
        addLinkedItemFields_def nodesOf_addTaxonomyFields_loop nodesOf_addLinkedItemFields_loop)

lemma distinct_resolved:
  "distinct (map node_id (nodesOf s (assetTypeName self))) \<Longrightarrow>
     distinct (map node_id (nodesOf (resolved self s c node) (assetTypeName self)))"
  unfolding resolved_def
  by (rule distinct_addAssetFields)
     (simp add: addTaxonomyFields_def
        addLinkedItemFields_def nodesOf_addTaxonomyFields_loop nodesOf_addLinkedItemFields_loop)

lemma dom_addContentNode:
  "dom (collections s) \<subseteq> dom (collections (fst (addContentNode self s c node)))"
  by (cases "findNode s c (item_id (item node))")
     (auto simp: addContentNode_found addContentNode_new Let_def dom_addItemLinkNode dom_addNode
        dom_resolved)

lemma dom_addContentNode_asset:
  "findNode s c (item_id (item node)) = None \<Longrightarrow>
     assetTypeName self \<in> dom (collections (fst (addContentNode self s c node)))"
  by (auto simp: addContentNode_new Let_def dom_addItemLinkNode dom_addNode dom_resolved)

lemma nodesOf_addContentNode_extends:
  "\<exists>ys. nodesOf (fst (addContentNode self s c node)) t = nodesOf s t @ ys"
proof (cases "findNode s c (item_id (item node))")
  case None
  obtain ys where "nodesOf (resolved self s c node) t = nodesOf s t @ ys"
    using nodesOf_resolved_extends by blast
  then show ?thesis
    using None by (auto simp: addContentNode_new Let_def nodesOf_addItemLinkNode nodesOf_addNode)
next
  case (Some e)
  then show ?thesis by (simp add: addContentNode_found)
qed

lemma nodesOf_addContentNode_new:
  "findNode s c (item_id (item node)) = None \<Longrightarrow> c \<in> dom (collections s) \<Longrightarrow>
   t \<noteq> assetTypeName self \<Longrightarrow> t \<noteq> itemLinkTypeName self \<Longrightarrow>
     nodesOf (fst (addContentNode self s c node)) t =
       (if t = c then nodesOf s c @ [ContentNode (item node)] else nodesOf s t)"
  by (auto simp: addContentNode_new Let_def nodesOf_addItemLinkNode nodesOf_addNode dom_resolved
        nodesOf_resolved_other)

lemma nodesOf_addContentNode_asset:
  "findNode s c (item_id (item node)) = None \<Longrightarrow>
   c \<noteq> assetTypeName self \<Longrightarrow> itemLinkTypeName self \<noteq> assetTypeName self \<Longrightarrow>
     nodesOf (fst (addContentNode self s c node)) (assetTypeName self) =
       nodesOf (resolved self s c node) (assetTypeName self)"
  by (simp add: addContentNode_new Let_def nodesOf_addItemLinkNode nodesOf_addNode)

lemma idsOf_addContentNode_self:
  "c \<in> dom (collections s) \<Longrightarrow> item_id (item node) \<in> idsOf (fst (addContentNode self s c node)) c"
proof (cases "findNode s c (item_id (item node))")
  case None
  assume "c \<in> dom (collections s)"
  then show ?thesis
    using None
    by (auto simp: addContentNode_new Let_def idsOf_def nodesOf_addItemLinkNode nodesOf_addNode
          dom_resolved)
next
  case (Some e)
  then have "item_id (item node) \<in> idsOf s c"
    using findNode_None_idsOf [of s c "item_id (item node)"] by simp
  then show ?thesis using Some by (simp add: addContentNode_found)
qed

lemma find_snoc_new: "find P xs = None \<Longrightarrow> P x \<Longrightarrow> find P (xs @ [x] @ ys) = Some x"
  by (induction xs) (auto split: if_splits)

lemma count_snoc_new:
  "i \<notin> node_id ` set xs \<Longrightarrow> node_id x = i \<Longrightarrow> length (filter (\<lambda>y. node_id y = i) (xs @ [x])) = 1"
  by (induction xs) auto

section \<open>addContentItemNodes\<close>

lemma addContentItemNodes_append:
  "addContentItemNodes self s (xs @ ys) =
     addContentItemNodes self (addContentItemNodes self s xs) ys"
  by (induction xs arbitrary: s) (simp_all add: Let_def)

lemma nodesOf_addContentItemNodes_extends:
  "\<exists>ys. nodesOf (addContentItemNodes self s xs) t = nodesOf s t @ ys"
proof (induction xs arbitrary: s)
  case Nil
  then show ?case by simp
next
  case (Cons x xs)
  let ?c = "item_typeName (item (createNode x))"
  let ?s2 = "fst (addContentNode self (getCollection s ?c) ?c (createNode x))"
  obtain ys where "nodesOf ?s2 t = nodesOf s t @ ys"
    using nodesOf_addContentNode_extends [of self "getCollection s ?c" ?c "createNode x" t]
    by (auto simp: nodesOf_getCollection)
  moreover obtain zs where "nodesOf (addContentItemNodes self ?s2 xs) t = nodesOf ?s2 t @ zs"
    using Cons.IH by blast
  ultimately show ?case by (simp add: Let_def)
qed

lemma idsOf_addContentItemNodes_mono:
  "idsOf s t \<subseteq> idsOf (addContentItemNodes self s xs) t"
  using nodesOf_addContentItemNodes_extends [of self s xs t] by (auto simp: idsOf_def)

lemma idsOf_addContentItemNodes_present:
  "x \<in> set xs \<Longrightarrow>
     item_id (item (createNode x)) \<in>
       idsOf (addContentItemNodes self s xs) (item_typeName (item (createNode x)))"
proof (induction xs arbitrary: s)
  case Nil
  then show ?case by simp
next
  case (Cons y xs)
  let ?c = "item_typeName (item (createNode y))"
  let ?s2 = "fst (addContentNode self (getCollection s ?c) ?c (createNode y))"
  show ?case
  proof (cases "x = y")
    case True
    have "item_id (item (createNode y)) \<in> idsOf ?s2 ?c"
      by (rule idsOf_addContentNode_self) (simp add: dom_getCollection)
    then show ?thesis
      using True idsOf_addContentItemNodes_mono [of ?s2 ?c self xs] by (auto simp: Let_def)
  next
    case False
    then show ?thesis using Cons by (simp add: Let_def)
  qed
qed

section \<open>Schema resolvers and the assembly invariant\<close>

lemma dom_addAssetSchemaResolvers:
  "assetTypeName self \<in> dom (collections (addAssetSchemaResolvers self s))"
  by (simp add: addAssetSchemaResolvers_def Let_def store_addSchemaResolvers_def dom_getCollection)

lemma assetInvI:
  "distinct (map node_id (nodesOf s (assetTypeName self))) \<Longrightarrow>
   (\<And>x. x \<in> P \<Longrightarrow> assetIds (createNode x) \<subseteq> idsOf s (assetTypeName self)) \<Longrightarrow>
   (\<And>x. x \<in> U \<Longrightarrow> idOf x \<in> idsOf s (typeNameOf x) \<Longrightarrow>
      \<exists>y\<in>P. typeNameOf y = typeNameOf x \<and> idOf y = idOf x) \<Longrightarrow>
   assetInv self U P s"
  unfolding assetInv_def by blast

lemma assetInv_distinct:
  "assetInv self U P s \<Longrightarrow> distinct (map node_id (nodesOf s (assetTypeName self)))"
  unfolding assetInv_def by blast

lemma assetInv_assets:
  "assetInv self U P s \<Longrightarrow> x \<in> P \<Longrightarrow> assetIds (createNode x) \<subseteq> idsOf s (assetTypeName self)"
  unfolding assetInv_def by blast

lemma assetInv_known:
  "assetInv self U P s \<Longrightarrow> x \<in> U \<Longrightarrow> idOf x \<in> idsOf s (typeNameOf x) \<Longrightarrow>
     \<exists>y\<in>P. typeNameOf y = typeNameOf x \<and> idOf y = idOf x"
  unfolding assetInv_def by blast

lemma sameAssetsD:
  assumes "sameAssets U" and "x \<in> U" and "y \<in> U"
    and "typeNameOf x = typeNameOf y" and "idOf x = idOf y"
  shows "assetFields (createNode x) = assetFields (createNode y)"
proof -
  have "\<forall>x\<in>U. \<forall>y\<in>U. typeNameOf x = typeNameOf y \<and> idOf x = idOf y \<longrightarrow>
          assetFields (createNode x) = assetFields (createNode y)"
    using assms(1) unfolding sameAssets_def .
  then show ?thesis using assms(2-5) by blast
qed

lemma assetInv_step:
  assumes names: "separateNames self U" and same: "sameAssets U"
    and xU: "x \<in> U" and PU: "P \<subseteq> U"
    and inv: "assetInv self U P s"
  shows "assetInv self U (insert x P)
           (fst (addContentNode self (getCollection s (typeNameOf x)) (typeNameOf x) (createNode x)))"
proof -
  let ?A = "assetTypeName self"
  let ?c = "typeNameOf x"
  let ?s1 = "getCollection s ?c"
  let ?s2 = "fst (addContentNode self ?s1 ?c (createNode x))"
  have cA: "?c \<noteq> ?A" and cL: "?c \<noteq> itemLinkTypeName self" and LA: "itemLinkTypeName self \<noteq> ?A"
    using names xU by (auto simp: separateNames_def)
  have live: "?c \<in> dom (collections ?s1)" by (simp add: dom_getCollection)
  have ids1: "idsOf ?s1 t = idsOf s t" for t by (rule idsOf_getCollection)
  have nodes1: "nodesOf ?s1 t = nodesOf s t" for t by (rule nodesOf_getCollection)
  show ?thesis
  proof (cases "findNode ?s1 ?c (item_id (item (createNode x)))")
    case (Some e)
    then have s2: "?s2 = ?s1" by (simp add: addContentNode_found)
    have "idOf x \<in> idsOf ?s1 ?c"
      using Some findNode_None_idsOf [of ?s1 ?c "idOf x"] by (simp add: idOf_def)
    then have "idOf x \<in> idsOf s ?c" by (simp only: ids1)
    then obtain y where y: "y \<in> P" "typeNameOf y = ?c" "idOf y = idOf x"
      using assetInv_known [OF inv xU] by blast
    have yU: "y \<in> U" using y(1) PU by blast
    have "assetFields (createNode x) = assetFields (createNode y)"
      by (rule sameAssetsD [OF same xU yU y(2) [symmetric] y(3) [symmetric]])
    then have "assetIds (createNode x) = assetIds (createNode y)"
      by (simp add: assetIds_def)
    then have ax: "assetIds (createNode x) \<subseteq> idsOf s ?A"
      using assetInv_assets [OF inv y(1)] by simp
    have "assetInv self U (insert x P) ?s1"
    proof (rule assetInvI)
      show "distinct (map node_id (nodesOf ?s1 ?A))"
        using assetInv_distinct [OF inv] by (simp only: nodes1)
    next
      fix z assume "z \<in> insert x P"
      then have "assetIds (createNode z) \<subseteq> idsOf s ?A"
        using ax assetInv_assets [OF inv] by blast
      then show "assetIds (createNode z) \<subseteq> idsOf ?s1 ?A" by (simp only: ids1)
    next
      fix u assume "u \<in> U" "idOf u \<in> idsOf ?s1 (typeNameOf u)"
      then have "idOf u \<in> idsOf s (typeNameOf u)" by (simp only: ids1)
      then have "\<exists>y\<in>P. typeNameOf y = typeNameOf u \<and> idOf y = idOf u"
        using assetInv_known [OF inv \<open>u \<in> U\<close>] by blast
      then show "\<exists>y\<in>insert x P. typeNameOf y = typeNameOf u \<and> idOf y = idOf u" by blast
    qed
    then show ?thesis by (simp only: s2)
  next
    case None
    have nA: "nodesOf ?s2 ?A = nodesOf (resolved self ?s1 ?c (createNode x)) ?A"
      using None cA LA by (rule nodesOf_addContentNode_asset)
    have d1: "distinct (map node_id (nodesOf ?s1 ?A))"
      using assetInv_distinct [OF inv] by (simp only: nodes1)
    have d: "distinct (map node_id (nodesOf ?s2 ?A))"
      unfolding nA using d1 by (rule distinct_resolved)
    have "idsOf ?s2 ?A = idsOf (resolved self ?s1 ?c (createNode x)) ?A"
      using nA by (simp add: idsOf_def)
    then have iA: "idsOf ?s2 ?A = idsOf s ?A \<union> assetIds (createNode x)"
      by (simp only: idsOf_resolved ids1)
    have other: "idsOf ?s2 t \<subseteq> (if t = ?c then insert (idOf x) (idsOf s t) else idsOf s t)"
      if "t \<noteq> ?A" "t \<noteq> itemLinkTypeName self" for t
    proof -
      have "nodesOf ?s2 t = (if t = ?c then nodesOf ?s1 ?c @ [ContentNode (item (createNode x))]
                             else nodesOf ?s1 t)"
        by (rule nodesOf_addContentNode_new [OF None live that])
      then show ?thesis
        by (simp add: idsOf_def nodes1 idOf_def)
    qed
    show ?thesis
    proof (rule assetInvI)
      show "distinct (map node_id (nodesOf ?s2 ?A))" by (rule d)
    next
      fix z assume "z \<in> insert x P"
      then have "assetIds (createNode z) \<subseteq> idsOf s ?A \<union> assetIds (createNode x)"
        using assetInv_assets [OF inv] by blast
      then show "assetIds (createNode z) \<subseteq> idsOf ?s2 ?A" by (simp only: iA)
    next
      fix u assume u: "u \<in> U" "idOf u \<in> idsOf ?s2 (typeNameOf u)"
      have "typeNameOf u \<noteq> ?A" "typeNameOf u \<noteq> itemLinkTypeName self"
        using names u(1) unfolding separateNames_def by blast+
      from other [OF this] u(2)
      have "idOf u \<in> idsOf s (typeNameOf u) \<or> (typeNameOf u = ?c \<and> idOf u = idOf x)"
        by (cases "typeNameOf u = ?c") auto
      then show "\<exists>y\<in>insert x P. typeNameOf y = typeNameOf u \<and> idOf y = idOf u"
      proof
        assume "idOf u \<in> idsOf s (typeNameOf u)"
        then obtain y where "y \<in> P" "typeNameOf y = typeNameOf u" "idOf y = idOf u"
          using assetInv_known [OF inv u(1)] by blast
        then show ?thesis by blast
      next
        assume eq: "typeNameOf u = ?c \<and> idOf u = idOf x"
        have "typeNameOf u = ?c" using eq by (rule conjunct1)
        then have "typeNameOf x = typeNameOf u" by (rule sym)
        moreover have "idOf u = idOf x" using eq by (rule conjunct2)
        then have "idOf x = idOf u" by (rule sym)
        ultimately show ?thesis by blast
      qed
    qed
  qed
qed

lemma assetInv_addContentItemNodes:
  "separateNames self U \<Longrightarrow> sameAssets U \<Longrightarrow> set xs \<subseteq> U \<Longrightarrow> P \<subseteq> U \<Longrightarrow> assetInv self U P s \<Longrightarrow>
     assetInv self U (P \<union> set xs) (addContentItemNodes self s xs)"
proof (induction xs arbitrary: s P)
  case Nil
  then show ?case by simp
next
  case (Cons x xs)
  let ?s2 = "fst (addContentNode self (getCollection s (typeNameOf x)) (typeNameOf x) (createNode x))"
  have xU: "x \<in> U" and xsU: "set xs \<subseteq> U"
    using Cons.prems(3) by simp_all
  have PU: "insert x P \<subseteq> U"
    using xU Cons.prems(4) by simp
  have step: "assetInv self U (insert x P) ?s2"
    by (rule assetInv_step [OF Cons.prems(1) Cons.prems(2) xU Cons.prems(4) Cons.prems(5)])
  have a: "assetInv self U (insert x P \<union> set xs) (addContentItemNodes self ?s2 xs)"
    by (rule Cons.IH [OF Cons.prems(1) Cons.prems(2) xsU PU step])
  have e1: "P \<union> set (x # xs) = insert x P \<union> set xs"
    by simp
  have e2: "addContentItemNodes self s (x # xs) = addContentItemNodes self ?s2 xs"
    by (simp add: Let_def typeNameOf_def)
  show ?case unfolding e1 e2 by (rule a)
qed

lemma count_distinct_one:
  "distinct (map f xs) \<Longrightarrow> y \<in> f ` set xs \<Longrightarrow> length (filter (\<lambda>x. f x = y) xs) = 1"
proof (induction xs)
  case Nil
  then show ?case by simp
next
  case (Cons a xs)
  show ?case
  proof (cases "f a = y")
    case True
    then have "y \<notin> f ` set xs"
      using Cons.prems(1) by simp
    then have "\<forall>x\<in>set xs. f x \<noteq> y" by blast
    then have "filter (\<lambda>x. f x = y) xs = []"
      by (simp add: filter_empty_conv)
    then show ?thesis using True by simp
  next
    case False
    then show ?thesis using Cons by auto
  qed
qed

lemma addContentNodes_assembled:
  "addContentNodes self s codename = addContentItemNodes self s (assembled self codename)"
  by (cases "content_linkedItems (getContent (deliveryClient self) codename)")
     (simp_all add: addContentNodes_def assembled_def Let_def addContentItemNodes_append)

lemma load_contentTypes_assembled:
  "load_contentTypes self s cts =
     addContentItemNodes self s (concat (map (assembled self) cts))"
  by (induction cts arbitrary: s)
     (simp_all add: addContentNodes_assembled addContentItemNodes_append)

section \<open>The phases of load\<close>

lemma nodesOf_store_putCollection:
  "nodesOf (store_putCollection s c col) t = (if t = c then data col else nodesOf s t)"
  by (simp add: nodesOf_def store_putCollection_def)

lemma nodesOf_addTaxonomyGroup_other:
  "addTaxonomyGroup s g = Inr s' \<Longrightarrow> t \<noteq> taxonomyItem_typeName g \<Longrightarrow> nodesOf s' t = nodesOf s t"
  by (auto simp: addTaxonomyGroup_def Let_def nodesOf_store_putCollection nodesOf_addReference
        nodesOf_getCollection split: option.splits sum.splits prod.splits)

lemma nodesOf_addTaxonomyGroupNodes_loop_other:
  "addTaxonomyGroupNodes_loop s gs = Inr s' \<Longrightarrow> t \<notin> taxonomyItem_typeName ` set gs \<Longrightarrow>
     nodesOf s' t = nodesOf s t"
proof (induction gs arbitrary: s)
  case Nil
  then show ?case by simp
next
  case (Cons g gs)
  then obtain s1 where s1: "addTaxonomyGroup s g = Inr s1" "addTaxonomyGroupNodes_loop s1 gs = Inr s'"
    by (auto split: sum.splits)
  have "nodesOf s1 t = nodesOf s t"
    using s1(1) Cons.prems(2) by (intro nodesOf_addTaxonomyGroup_other) auto
  moreover have "nodesOf s' t = nodesOf s1 t"
    using s1(2) Cons.prems(2) by (intro Cons.IH) auto
  ultimately show ?case by simp
qed

lemma nodesOf_store_addSchemaResolvers: "nodesOf (store_addSchemaResolvers s c) t = nodesOf s t"
  by (simp add: store_addSchemaResolvers_def nodesOf_def)

lemma nodesOf_addSchemaResolvers: "nodesOf (addSchemaResolvers self s) t = nodesOf s t"
  by (simp add: addSchemaResolvers_def addAssetSchemaResolvers_def Let_def nodesOf_getCollection
        nodesOf_store_addSchemaResolvers)

lemma load_Inr:
  "load self s0 = Inr s' \<Longrightarrow>
     \<exists>s. addTaxonomyGroupNodes_loop s0 (getTaxonomyGroups (deliveryClient self)) = Inr s \<and>
         s' = addSchemaResolvers self
                (addContentItemNodes self s
                   (concat (map (assembled self) (getContentTypes (deliveryClient self)))))"
  by (auto simp: load_def Let_def addTaxonomyGroupNodes_def load_contentTypes_assembled
        split: sum.splits)

lemma distinct_addContentNode:
  assumes live: "c \<in> dom (collections s)"
    and t: "t \<noteq> assetTypeName self" "t \<noteq> itemLinkTypeName self"
    and d: "distinct (map node_id (nodesOf s t))"
  shows "distinct (map node_id (nodesOf (fst (addContentNode self s c node)) t))"
proof (cases "findNode s c (item_id (item node))")
  case None
  have n: "nodesOf (fst (addContentNode self s c node)) t =
             (if t = c then nodesOf s c @ [ContentNode (item node)] else nodesOf s t)"
    by (rule nodesOf_addContentNode_new [OF None live t])
  have "item_id (item node) \<notin> node_id ` set (nodesOf s c)"
    using None by (simp add: findNode_None_iff)
  then show ?thesis
    unfolding n using d by auto
next
  case (Some e)
  then show ?thesis using d by (simp add: addContentNode_found)
qed

lemma distinct_addContentItemNodes:
  "t \<noteq> assetTypeName self \<Longrightarrow> t \<noteq> itemLinkTypeName self \<Longrightarrow>
   distinct (map node_id (nodesOf s t)) \<Longrightarrow>
     distinct (map node_id (nodesOf (addContentItemNodes self s xs) t))"
proof (induction xs arbitrary: s)
  case Nil
  then show ?case by simp
next
  case (Cons x xs)
  let ?c = "item_typeName (item (createNode x))"
  let ?s1 = "getCollection s ?c"
  let ?s2 = "fst (addContentNode self ?s1 ?c (createNode x))"
  have live: "?c \<in> dom (collections ?s1)"
    by (simp add: dom_getCollection)
  have d1: "distinct (map node_id (nodesOf ?s1 t))"
    using Cons.prems(3) by (simp only: nodesOf_getCollection)
  have d2: "distinct (map node_id (nodesOf ?s2 t))"
    by (rule distinct_addContentNode [OF live Cons.prems(1) Cons.prems(2) d1])
  have "distinct (map node_id (nodesOf (addContentItemNodes self ?s2 xs) t))"
    by (rule Cons.IH [OF Cons.prems(1) Cons.prems(2) d2])
  then show ?case by (simp add: Let_def)
qed

lemma content_node_unique:
  assumes x: "x \<in> set xs"
    and t: "typeNameOf x \<noteq> assetTypeName self" "typeNameOf x \<noteq> itemLinkTypeName self"
    and d: "distinct (map node_id (nodesOf s (typeNameOf x)))"
  shows "length (filter (\<lambda>n. node_id n = idOf x)
                   (nodesOf (addContentItemNodes self s xs) (typeNameOf x))) = 1"
proof -
  have "distinct (map node_id (nodesOf (addContentItemNodes self s xs) (typeNameOf x)))"
    by (rule distinct_addContentItemNodes [OF t d])
  moreover have "idOf x \<in> node_id ` set (nodesOf (addContentItemNodes self s xs) (typeNameOf x))"
    using idsOf_addContentItemNodes_present [OF x, of self s]
    by (simp add: idsOf_def idOf_def typeNameOf_def)
  ultimately show ?thesis by (rule count_distinct_one)
qed

section \<open>Deduplication of content nodes\<close>

text \<open>
  C1. A content item id is inserted into its collection once. Whatever the first call
  of \<open>addContentNode\<close> did, a second call for the same id, on the same collection,
  leaves the store as it is: no reference is declared, no asset, node or item link is
  inserted. If the first call found the id, both calls return the node found. If the
  first call did not find it, and the collection is neither the Asset nor the ItemLink
  collection, then afterwards the collection holds exactly one node with that id, and
  the second call returns the record of the first, also in any later store in which
  the collection has only grown. Over the assembly of any list of content items, with
  repetitions, each item whose collection is neither the Asset nor the ItemLink
  collection, and held no id twice at the start, ends up with exactly one node of its
  id in its collection.
\<close>

theorem addContentNode_dedup:
  assumes live: "c \<in> dom (collections s)"
    and same: "item_id (item n') = item_id (item n)"
  shows
    "fst (addContentNode self (fst (addContentNode self s c n)) c n') =
       fst (addContentNode self s c n) \<and>
     (findNode s c (item_id (item n)) \<noteq> None \<longrightarrow>
        fst (addContentNode self s c n) = s \<and>
        addContentNode self s c n' = addContentNode self s c n) \<and>
     (findNode s c (item_id (item n)) = None \<and> c \<noteq> assetTypeName self \<and>
      c \<noteq> itemLinkTypeName self \<longrightarrow>
        length (filter (\<lambda>x. node_id x = item_id (item n))
                  (nodesOf (fst (addContentNode self s c n)) c)) = 1 \<and>
        (\<forall>s2 ys. nodesOf s2 c = nodesOf (fst (addContentNode self s c n)) c @ ys \<longrightarrow>
           addContentNode self s2 c n' = (s2, snd (addContentNode self s c n)))) \<and>
     (\<forall>xs x. x \<in> set xs \<and> typeNameOf x \<noteq> assetTypeName self \<and>
        typeNameOf x \<noteq> itemLinkTypeName self \<and>
        distinct (map node_id (nodesOf s (typeNameOf x))) \<longrightarrow>
        length (filter (\<lambda>y. node_id y = idOf x)
                  (nodesOf (addContentItemNodes self s xs) (typeNameOf x))) = 1)"
proof (intro conjI impI)
  let ?s1 = "fst (addContentNode self s c n)"
  have "item_id (item n) \<in> idsOf ?s1 c"
    using live by (rule idsOf_addContentNode_self)
  then obtain e where "findNode ?s1 c (item_id (item n')) = Some e"
    using findNode_None_idsOf [of ?s1 c "item_id (item n)"] same by auto
  then show "fst (addContentNode self ?s1 c n') = ?s1"
    by (simp add: addContentNode_found)
next
  assume "findNode s c (item_id (item n)) \<noteq> None"
  then obtain e where e: "findNode s c (item_id (item n)) = Some e" by auto
  then show "fst (addContentNode self s c n) = s"
    by (simp add: addContentNode_found)
  show "addContentNode self s c n' = addContentNode self s c n"
    using e same by (simp add: addContentNode_found)
next
  assume a: "findNode s c (item_id (item n)) = None \<and> c \<noteq> assetTypeName self \<and>
      c \<noteq> itemLinkTypeName self"
  let ?s1 = "fst (addContentNode self s c n)"
  have nodes: "nodesOf ?s1 c = nodesOf s c @ [ContentNode (item n)]"
    using a live by (simp add: nodesOf_addContentNode_new)
  have fresh: "item_id (item n) \<notin> node_id ` set (nodesOf s c)"
    using a by (simp add: findNode_None_iff)
  show "length (filter (\<lambda>x. node_id x = item_id (item n)) (nodesOf ?s1 c)) = 1"
    unfolding nodes using fresh by (intro count_snoc_new) simp_all
  have r: "snd (addContentNode self s c n) = ContentNode (item n)"
    using a by (simp add: addContentNode_new)
  show "\<forall>s2 ys. nodesOf s2 c = nodesOf ?s1 c @ ys \<longrightarrow>
           addContentNode self s2 c n' = (s2, snd (addContentNode self s c n))"
  proof (intro allI impI)
    fix s2 ys
    assume "nodesOf s2 c = nodesOf ?s1 c @ ys"
    then have "nodesOf s2 c = nodesOf s c @ [ContentNode (item n)] @ ys"
      using nodes by simp
    moreover have "find (\<lambda>x. node_id x = item_id (item n)) (nodesOf s c) = None"
      using a by (simp add: findNode_def)
    ultimately have "findNode s2 c (item_id (item n')) = Some (ContentNode (item n))"
      using same find_snoc_new [of "\<lambda>x. node_id x = item_id (item n)" "nodesOf s c" "ContentNode (item n)" ys]
      by (simp add: findNode_def)
    then show "addContentNode self s2 c n' = (s2, snd (addContentNode self s c n))"
      using r by (simp add: addContentNode_found)
  qed
next
  show "\<forall>xs x. x \<in> set xs \<and> typeNameOf x \<noteq> assetTypeName self \<and>
        typeNameOf x \<noteq> itemLinkTypeName self \<and>
        distinct (map node_id (nodesOf s (typeNameOf x))) \<longrightarrow>
        length (filter (\<lambda>y. node_id y = idOf x)
                  (nodesOf (addContentItemNodes self s xs) (typeNameOf x))) = 1"
    by (intro allI impI, elim conjE, rule content_node_unique)
qed

theorem addContentNode_dedup_witness:
  "''Article'' \<in> dom (collections storeArticle) \<and>
   findNode storeArticle ''Article'' (item_id (item nodeArticle)) = None \<and>
   length (filter (\<lambda>x. node_id x = ''i1'')
             (nodesOf (fst (addContentNode exampleSource storeArticle ''Article'' nodeArticle))
                ''Article'')) = 1 \<and>
   addContentNode exampleSource
       (fst (addContentNode exampleSource storeArticle ''Article'' nodeArticle))
       ''Article'' nodeArticle =
     (fst (addContentNode exampleSource storeArticle ''Article'' nodeArticle),
      ContentNode itemArticle) \<and>
   findNode (addNode storeArticle ''Article'' (ContentNode itemArticle)) ''Article''
       (item_id (item nodeArticle)) \<noteq> None \<and>
   fst (addContentNode exampleSource
          (addNode storeArticle ''Article'' (ContentNode itemArticle)) ''Article'' nodeArticle) =
     addNode storeArticle ''Article'' (ContentNode itemArticle) \<and>
   length (filter (\<lambda>y. node_id y = ''i2'')
             (nodesOf (addContentItemNodes exampleSource storeArticle
                         [entryAuthor, entryQuote, entryArticle, entryAuthor])
                ''Author'')) = 1"
proof -
  let ?s = storeArticle
  let ?t = "addNode storeArticle ''Article'' (ContentNode itemArticle)"
  let ?s1 = "fst (addContentNode exampleSource ?s ''Article'' nodeArticle)"
  let ?xs = "[entryAuthor, entryQuote, entryArticle, entryAuthor]"
  have live: "''Article'' \<in> dom (collections ?s)"
    by (simp add: storeArticle_def dom_getCollection)
  have live': "''Article'' \<in> dom (collections ?t)"
    using live by (simp add: dom_addNode)
  have fresh: "findNode ?s ''Article'' (item_id (item nodeArticle)) = None"
    by (simp add: storeArticle_def findNode_def nodesOf_getCollection nodesOf_emptyStore)
  have ns: "nodesOf storeArticle c = []" for c
    by (simp add: storeArticle_def nodesOf_getCollection nodesOf_emptyStore)
  have found: "findNode ?t ''Article'' (item_id (item nodeArticle)) \<noteq> None"
    using live
    by (simp add: findNode_def nodesOf_addNode ns nodeArticle_def itemArticle_def)
  have names: "''Article'' \<noteq> assetTypeName exampleSource"
    "''Article'' \<noteq> itemLinkTypeName exampleSource"
    by (simp_all add: assetTypeName_def itemLinkTypeName_def exampleSource_def)
  have i: "item_id (item nodeArticle) = ''i1''"
    by (simp add: nodeArticle_def itemArticle_def)
  have r: "snd (addContentNode exampleSource ?s ''Article'' nodeArticle) = ContentNode itemArticle"
    using fresh by (simp add: addContentNode_new nodeArticle_def)
  have e: "nodesOf ?s1 ''Article'' = nodesOf ?s1 ''Article'' @ []" by simp
  have a: "typeNameOf entryAuthor = ''Author''" "idOf entryAuthor = ''i2''"
    by (simp_all add: typeNameOf_def idOf_def entryAuthor_def nodeAuthor_def itemAuthor_def)
  have x: "entryAuthor \<in> set ?xs \<and> typeNameOf entryAuthor \<noteq> assetTypeName exampleSource \<and>
        typeNameOf entryAuthor \<noteq> itemLinkTypeName exampleSource \<and>
        distinct (map node_id (nodesOf ?s (typeNameOf entryAuthor)))"
    by (simp add: a ns assetTypeName_def itemLinkTypeName_def exampleSource_def)
  have "length (filter (\<lambda>y. node_id y = idOf entryAuthor)
                  (nodesOf (addContentItemNodes exampleSource ?s ?xs) (typeNameOf entryAuthor))) = 1"
    using x addContentNode_dedup [OF live refl, of exampleSource nodeArticle] by blast
  then have u: "length (filter (\<lambda>y. node_id y = ''i2'')
                  (nodesOf (addContentItemNodes exampleSource ?s ?xs) ''Author'')) = 1"
    by (simp only: a)
  show ?thesis
    using live fresh found names i r e u
      addContentNode_dedup [OF live refl, of exampleSource nodeArticle]
      addContentNode_dedup [OF live' refl, of exampleSource nodeArticle]
    by metis
qed

section \<open>Reference declarations\<close>

text \<open>
  C4. Reference declaration is asymmetric between the field groups. Linked-item
  fields with no linked item declare nothing: dropping them from the node gives the
  same store, and a field name all of whose linked-item fields are empty keeps the
  reference it had, none if it had none. Every asset field, empty or not, leaves a
  reference from its field name to the type name of the Asset collection.
\<close>

theorem reference_declaration_asymmetry:
  assumes live: "c \<in> dom (collections s)"
  shows
    "addLinkedItemFields s c
       (node\<lparr>linkedItemFields := filter (\<lambda>f. linkedItems f \<noteq> []) (linkedItemFields node)\<rparr>) =
       addLinkedItemFields s c node \<and>
     ((\<forall>f\<in>set (linkedItemFields node).
         linkedItemField_fieldName f = fn \<longrightarrow> linkedItems f = []) \<longrightarrow>
        refsOf (addLinkedItemFields s c node) c fn = refsOf s c fn) \<and>
     (\<forall>f\<in>set (assetFields node).
        refsOf (addAssetFields self s c node) c (assetField_fieldName f) =
          Some (assetTypeName self))"
  using live
  by (simp add: addLinkedItemFields_def addAssetFields_def Let_def addLinkedItemFields_loop_filter
        refsOf_addLinkedItemFields_loop_other refsOf_addAssetFields_loop dom_getCollection)

theorem reference_declaration_asymmetry_witness:
  "''Article'' \<in> dom (collections storeArticle) \<and>
   fieldRelated \<in> set (linkedItemFields nodeArticle) \<and> linkedItems fieldRelated = [] \<and>
   refsOf (addLinkedItemFields storeArticle ''Article'' nodeArticle) ''Article'' ''related'' = None \<and>
   fieldGallery \<in> set (assetFields nodeArticle) \<and> assets fieldGallery = [] \<and>
   refsOf (addAssetFields exampleSource storeArticle ''Article'' nodeArticle) ''Article''
     ''gallery'' = Some ''Asset''"
proof -
  have live: "''Article'' \<in> dom (collections storeArticle)"
    by (simp add: storeArticle_def dom_getCollection)
  have e: "\<forall>f\<in>set (linkedItemFields nodeArticle).
             linkedItemField_fieldName f = ''related'' \<longrightarrow> linkedItems f = []"
    by (simp add: nodeArticle_def fieldAuthor_def fieldRelated_def)
  have none: "refsOf storeArticle ''Article'' ''related'' = None"
    by (simp add: storeArticle_def refsOf_getCollection refsOf_emptyStore)
  have g: "fieldGallery \<in> set (assetFields nodeArticle)"
    by (simp add: nodeArticle_def)
  have n: "assetField_fieldName fieldGallery = ''gallery''" "assets fieldGallery = []"
    "assetTypeName exampleSource = ''Asset''" "linkedItems fieldRelated = []"
    "fieldRelated \<in> set (linkedItemFields nodeArticle)"
    by (simp_all add: fieldGallery_def fieldRelated_def assetTypeName_def exampleSource_def
          nodeArticle_def)
  show ?thesis
    using live e none g n
      reference_declaration_asymmetry [OF live, of nodeArticle "''related''" exampleSource]
    by metis
qed

text \<open>
  C9. A linked-item field is resolved by its first linked item alone. Cutting every
  linked-item field down to its first linked item gives the same store, so the type
  names of the other linked items are dropped, and nothing is raised. For a node whose
  linked-item fields have different names, the reference of a non-empty field is the
  type name of its first linked item.
\<close>

theorem linked_item_reference_first_type:
  "addLinkedItemFields s c (node\<lparr>linkedItemFields := map keepFirst (linkedItemFields node)\<rparr>) =
     addLinkedItemFields s c node \<and>
   (c \<in> dom (collections s) \<and> distinct (map linkedItemField_fieldName (linkedItemFields node)) \<and>
    f \<in> set (linkedItemFields node) \<and> linkedItems f = li # rest \<longrightarrow>
      refsOf (addLinkedItemFields s c node) c (linkedItemField_fieldName f) =
        Some (linkedItem_typeName li))"
  by (simp add: addLinkedItemFields_def refsOf_addLinkedItemFields_loop_first
        addLinkedItemFields_loop_keepFirst)

theorem linked_item_reference_first_type_witness:
  "''Article'' \<in> dom (collections storeArticle) \<and>
   distinct (map linkedItemField_fieldName (linkedItemFields nodeArticle)) \<and>
   fieldAuthor \<in> set (linkedItemFields nodeArticle) \<and>
   map linkedItem_typeName (linkedItems fieldAuthor) = [''Author'', ''Quote''] \<and>
   refsOf (addLinkedItemFields storeArticle ''Article'' nodeArticle) ''Article'' ''author'' =
     Some ''Author''"
proof -
  have live: "''Article'' \<in> dom (collections storeArticle)"
    by (simp add: storeArticle_def dom_getCollection)
  have d: "distinct (map linkedItemField_fieldName (linkedItemFields nodeArticle))"
    by (simp add: nodeArticle_def fieldAuthor_def fieldRelated_def)
  have m: "fieldAuthor \<in> set (linkedItemFields nodeArticle)"
    by (simp add: nodeArticle_def)
  have l: "linkedItems fieldAuthor =
             \<lparr>linkedItem_id = ''i2'', linkedItem_typeName = ''Author''\<rparr>
               # [\<lparr>linkedItem_id = ''i3'', linkedItem_typeName = ''Quote''\<rparr>]"
    by (simp add: fieldAuthor_def)
  have t: "map linkedItem_typeName (linkedItems fieldAuthor) = [''Author'', ''Quote'']"
    by (simp add: fieldAuthor_def)
  have n: "linkedItemField_fieldName fieldAuthor = ''author''"
    by (simp add: fieldAuthor_def)
  have "refsOf (addLinkedItemFields storeArticle ''Article'' nodeArticle) ''Article''
          (linkedItemField_fieldName fieldAuthor) =
        Some (linkedItem_typeName \<lparr>linkedItem_id = ''i2'', linkedItem_typeName = ''Author''\<rparr>)"
    using live d m l
      linked_item_reference_first_type
        [of storeArticle "''Article''" nodeArticle fieldAuthor
            "\<lparr>linkedItem_id = ''i2'', linkedItem_typeName = ''Author''\<rparr>"
            "[\<lparr>linkedItem_id = ''i3'', linkedItem_typeName = ''Quote''\<rparr>]"]
    by blast
  then show ?thesis using live d m t n by simp
qed

section \<open>Assembly of one content type\<close>

text \<open>
  C8. A content type whose fetch returns no primary entry is left at once: the store
  is unchanged, so no node and no collection is created, whatever the side table of
  linked items holds.
\<close>

theorem addContentNodes_no_entries:
  "items (getContent (deliveryClient self) codename) = [] \<Longrightarrow>
     addContentNodes self s codename = s"
  by (simp add: addContentNodes_def Let_def)

theorem addContentNodes_no_entries_witness:
  "items (getContent (deliveryClient exampleSource) ''page'') = [] \<and>
   content_linkedItems (getContent (deliveryClient exampleSource) ''page'') \<noteq> [] \<and>
   addContentNodes exampleSource emptyStore ''page'' = emptyStore"
proof -
  have h: "items (getContent (deliveryClient exampleSource) ''page'') = []"
    by (simp add: exampleSource_def contentPage_def)
  have l: "content_linkedItems (getContent (deliveryClient exampleSource) ''page'') \<noteq> []"
    by (simp add: exampleSource_def contentPage_def)
  show ?thesis
    using h l addContentNodes_no_entries [OF h, of emptyStore] by simp
qed

text \<open>
  C6. Within the assembly of one content type that has entries, the linked items
  come first: the primary entries are assembled in the store that the assembly of all
  linked items has produced, and in that store every linked item is found in its
  collection.
\<close>

theorem linked_items_before_primary_entries:
  "items (getContent (deliveryClient self) codename) \<noteq> [] \<Longrightarrow>
     addContentNodes self s codename =
       addContentItemNodes self
         (addContentItemNodes self s
            (map snd (content_linkedItems (getContent (deliveryClient self) codename))))
         (items (getContent (deliveryClient self) codename)) \<and>
     (\<forall>li\<in>set (map snd (content_linkedItems (getContent (deliveryClient self) codename))).
        findNode
          (addContentItemNodes self s
             (map snd (content_linkedItems (getContent (deliveryClient self) codename))))
          (item_typeName (item (createNode li))) (item_id (item (createNode li))) \<noteq> None)"
proof (intro conjI ballI)
  assume ne: "items (getContent (deliveryClient self) codename) \<noteq> []"
  show "addContentNodes self s codename =
       addContentItemNodes self
         (addContentItemNodes self s
            (map snd (content_linkedItems (getContent (deliveryClient self) codename))))
         (items (getContent (deliveryClient self) codename))"
    using ne
    by (cases "content_linkedItems (getContent (deliveryClient self) codename)")
       (simp_all add: addContentNodes_def Let_def)
next
  fix li
  assume "li \<in> set (map snd (content_linkedItems (getContent (deliveryClient self) codename)))"
  then show "findNode
          (addContentItemNodes self s
             (map snd (content_linkedItems (getContent (deliveryClient self) codename))))
          (item_typeName (item (createNode li))) (item_id (item (createNode li))) \<noteq> None"
    using idsOf_addContentItemNodes_present findNode_None_idsOf by blast
qed

theorem linked_items_before_primary_entries_witness:
  "items (getContent (deliveryClient exampleSource) ''article'') \<noteq> [] \<and>
   addContentNodes exampleSource emptyStore ''article'' =
     addContentItemNodes exampleSource
       (addContentItemNodes exampleSource emptyStore [entryAuthor, entryQuote]) [entryArticle] \<and>
   findNode (addContentItemNodes exampleSource emptyStore [entryAuthor, entryQuote])
     ''Author'' ''i2'' \<noteq> None \<and>
   findNode (addContentItemNodes exampleSource emptyStore [entryAuthor, entryQuote])
     ''Quote'' ''i3'' \<noteq> None"
proof -
  have h: "items (getContent (deliveryClient exampleSource) ''article'') \<noteq> []"
    by (simp add: exampleSource_def contentArticle_def)
  have i: "items (getContent (deliveryClient exampleSource) ''article'') = [entryArticle]"
    by (simp add: exampleSource_def contentArticle_def)
  have l: "map snd (content_linkedItems (getContent (deliveryClient exampleSource) ''article'')) =
             [entryAuthor, entryQuote]"
    by (simp add: exampleSource_def contentArticle_def)
  have a: "item_typeName (item (createNode entryAuthor)) = ''Author''"
    "item_id (item (createNode entryAuthor)) = ''i2''"
    "item_typeName (item (createNode entryQuote)) = ''Quote''"
    "item_id (item (createNode entryQuote)) = ''i3''"
    by (simp_all add: entryAuthor_def nodeAuthor_def itemAuthor_def entryQuote_def nodeQuote_def
          itemQuote_def)
  show ?thesis
    using h linked_items_before_primary_entries [OF h, of emptyStore]
    unfolding l i by (simp add: a)
qed

section \<open>The Asset collection\<close>

text \<open>
  C5. Asset nodes are deduplicated by id across a whole \<open>load\<close>. Let the Asset
  collection, the ItemLink collection, the collections of the taxonomy groups and the
  collections of the content items be different collections, let content items of one
  type with one id carry the same asset fields, and let the store at the start hold
  none of the content items and no asset id twice. Then after a completed \<open>load\<close>,
  every asset that an asset field of any of the assembled content items (entries and
  linked items, of all content types) refers to has exactly one node with its id in
  the Asset collection.
\<close>

theorem assets_deduplicated:
  assumes completed: "load self s0 = Inr s'"
    and names: "separateNames self (set (concat (map (assembled self) (getContentTypes (deliveryClient self)))))"
    and taxo: "taxonomyApart self (set (concat (map (assembled self) (getContentTypes (deliveryClient self)))))"
    and same: "sameAssets (set (concat (map (assembled self) (getContentTypes (deliveryClient self)))))"
    and init: "distinct (map node_id (nodesOf s0 (assetTypeName self)))"
    and fresh: "\<forall>x\<in>set (concat (map (assembled self) (getContentTypes (deliveryClient self)))).
                  findNode s0 (typeNameOf x) (idOf x) = None"
  shows "\<forall>x\<in>set (concat (map (assembled self) (getContentTypes (deliveryClient self)))).
           \<forall>f\<in>set (assetFields (createNode x)). \<forall>a\<in>set (assets f).
             length (filter (\<lambda>n. node_id n = asset_id a) (nodesOf s' (assetTypeName self))) = 1"
proof (intro ballI)
  let ?xs = "concat (map (assembled self) (getContentTypes (deliveryClient self)))"
  let ?A = "assetTypeName self"
  fix x f a
  assume x: "x \<in> set ?xs" and f: "f \<in> set (assetFields (createNode x))" and a: "a \<in> set (assets f)"
  obtain s where s: "addTaxonomyGroupNodes_loop s0 (getTaxonomyGroups (deliveryClient self)) = Inr s"
    and s': "s' = addSchemaResolvers self (addContentItemNodes self s ?xs)"
    using load_Inr [OF completed] by blast
  have A: "?A \<notin> taxonomyItem_typeName ` set (getTaxonomyGroups (deliveryClient self))"
    using taxo by (auto simp: taxonomyApart_def)
  have nA: "nodesOf s ?A = nodesOf s0 ?A"
    by (rule nodesOf_addTaxonomyGroupNodes_loop_other [OF s A])
  have nx: "nodesOf s (typeNameOf y) = nodesOf s0 (typeNameOf y)" if "y \<in> set ?xs" for y
  proof -
    have "typeNameOf y \<notin> taxonomyItem_typeName ` set (getTaxonomyGroups (deliveryClient self))"
      using taxo that by (auto simp: taxonomyApart_def)
    then show ?thesis by (rule nodesOf_addTaxonomyGroupNodes_loop_other [OF s])
  qed
  have d: "distinct (map node_id (nodesOf s ?A))"
    using init by (simp only: nA)
  have fr: "\<forall>y\<in>set ?xs. idOf y \<notin> idsOf s (typeNameOf y)"
  proof
    fix y assume y: "y \<in> set ?xs"
    then have "idOf y \<notin> idsOf s0 (typeNameOf y)"
      using fresh findNode_None_idsOf by blast
    then show "idOf y \<notin> idsOf s (typeNameOf y)"
      using nx [OF y] by (simp add: idsOf_def)
  qed
  have inv0: "assetInv self (set ?xs) {} s"
    using d fr by (simp add: assetInv_def)
  have inv: "assetInv self (set ?xs) ({} \<union> set ?xs) (addContentItemNodes self s ?xs)"
    by (rule assetInv_addContentItemNodes [OF names same subset_refl empty_subsetI inv0])
  have "asset_id a \<in> assetIds (createNode x)"
    using f a by (auto simp: assetIds_def)
  then have "asset_id a \<in> node_id ` set (nodesOf (addContentItemNodes self s ?xs) ?A)"
    using inv x by (auto simp: assetInv_def idsOf_def)
  moreover have "distinct (map node_id (nodesOf (addContentItemNodes self s ?xs) ?A))"
    using inv by (simp add: assetInv_def)
  ultimately show "length (filter (\<lambda>n. node_id n = asset_id a) (nodesOf s' ?A)) = 1"
    unfolding s' nodesOf_addSchemaResolvers by (intro count_distinct_one)
qed

theorem assets_deduplicated_witness:
  "concat (map (assembled exampleSource) (getContentTypes (deliveryClient exampleSource))) =
     [entryAuthor, entryQuote, entryArticle, entryAuthor] \<and>
   assetPng \<in> set (assets fieldHero) \<and> fieldHero \<in> set (assetFields (createNode entryArticle)) \<and>
   assetPng \<in> set (assets fieldPhoto) \<and> fieldPhoto \<in> set (assetFields (createNode entryAuthor)) \<and>
   (\<exists>s'. load exampleSource emptyStore = Inr s' \<and>
         length (filter (\<lambda>n. node_id n = ''A1'') (nodesOf s' ''Asset'')) = 1)"
proof -
  let ?xs = "concat (map (assembled exampleSource) (getContentTypes (deliveryClient exampleSource)))"
  have xs: "?xs = [entryAuthor, entryQuote, entryArticle, entryAuthor]"
    by (simp add: assembled_def exampleSource_def contentArticle_def contentAuthor_def
          contentPage_def)
  have t: "typeNameOf entryAuthor = ''Author''" "typeNameOf entryQuote = ''Quote''"
    "typeNameOf entryArticle = ''Article''"
    "idOf entryAuthor = ''i2''" "idOf entryQuote = ''i3''" "idOf entryArticle = ''i1''"
    by (simp_all add: typeNameOf_def idOf_def entryAuthor_def entryQuote_def entryArticle_def
          nodeAuthor_def nodeQuote_def nodeArticle_def itemAuthor_def itemQuote_def
          itemArticle_def)
  have n: "assetTypeName exampleSource = ''Asset''" "itemLinkTypeName exampleSource = ''ItemLink''"
    by (simp_all add: assetTypeName_def itemLinkTypeName_def exampleSource_def)
  have g: "getTaxonomyGroups (deliveryClient exampleSource) =
             [\<lparr>taxonomyItem_typeName = ''TaxonomyTopics'', taxonomyItem_terms = Some [termA]\<rparr>]"
    by (simp add: exampleSource_def)
  obtain s' where l: "load exampleSource emptyStore = Inr s'"
    by (simp add: load_def addTaxonomyGroupNodes_def addTaxonomyGroup_def exampleSource_def
          Let_def getCollection_def store_addCollection_def addReference_def emptyStore_def
          emptyCollection_def termA_def termB_def termC_def termD_def
          collection_addNode_def)
  have names: "separateNames exampleSource (set ?xs)"
    unfolding xs by (simp add: separateNames_def t n)
  have taxo: "taxonomyApart exampleSource (set ?xs)"
    unfolding xs by (simp add: taxonomyApart_def g t n)
  have same: "sameAssets (set ?xs)"
    unfolding xs by (simp add: sameAssets_def t)
  have init: "distinct (map node_id (nodesOf emptyStore (assetTypeName exampleSource)))"
    by (simp add: nodesOf_emptyStore)
  have fresh: "\<forall>x\<in>set ?xs. findNode emptyStore (typeNameOf x) (idOf x) = None"
    by (simp add: findNode_def nodesOf_emptyStore)
  have m: "entryArticle \<in> set ?xs"
    unfolding xs by simp
  have f: "fieldHero \<in> set (assetFields (createNode entryArticle))"
    "fieldPhoto \<in> set (assetFields (createNode entryAuthor))"
    by (simp_all add: entryArticle_def nodeArticle_def entryAuthor_def nodeAuthor_def)
  have a: "assetPng \<in> set (assets fieldHero)" "assetPng \<in> set (assets fieldPhoto)"
    by (simp_all add: fieldHero_def fieldPhoto_def)
  have i: "asset_id assetPng = ''A1''"
    by (simp add: assetPng_def)
  have "length (filter (\<lambda>n. node_id n = asset_id assetPng)
                  (nodesOf s' (assetTypeName exampleSource))) = 1"
    using assets_deduplicated [OF l names taxo same init fresh] m f(1) a(1) by blast
  then have "length (filter (\<lambda>n. node_id n = ''A1'') (nodesOf s' ''Asset'')) = 1"
    by (simp only: i n)
  then show ?thesis
    using xs f a l by blast
qed

text \<open>
  C10. The Asset collection is created as a side effect, also when there is no asset.
  The asset pass creates it for any node, with or without asset fields, so it exists
  after every call of \<open>addContentNode\<close> that did not find the node; the resolver pass
  creates it before looking at its length, so it exists after that pass and after
  every completed \<open>load\<close>. When the collection is empty the resolver pass registers
  nothing and leaves it empty; when it is not, the url resolver is registered for the
  Asset type.
\<close>

theorem asset_collection_created:
  "assetTypeName self \<in> dom (collections (addAssetFields self s c node)) \<and>
   (findNode s c (item_id (item node)) = None \<longrightarrow>
      assetTypeName self \<in> dom (collections (fst (addContentNode self s c node)))) \<and>
   assetTypeName self \<in> dom (collections (addAssetSchemaResolvers self s)) \<and>
   (nodesOf s (assetTypeName self) = [] \<longrightarrow>
      schemaResolvers (addAssetSchemaResolvers self s) = schemaResolvers s \<and>
      nodesOf (addAssetSchemaResolvers self s) (assetTypeName self) = []) \<and>
   (nodesOf s (assetTypeName self) \<noteq> [] \<longrightarrow>
      schemaResolvers (addAssetSchemaResolvers self s) = schemaResolvers s @ [assetTypeName self]) \<and>
   (\<forall>s'. load self s = Inr s' \<longrightarrow> assetTypeName self \<in> dom (collections s'))"
proof (intro conjI impI allI)
  show "assetTypeName self \<in> dom (collections (addAssetFields self s c node))"
    by (simp add: dom_addAssetFields)
  show "assetTypeName self \<in> dom (collections (addAssetSchemaResolvers self s))"
    by (rule dom_addAssetSchemaResolvers)
next
  assume "findNode s c (item_id (item node)) = None"
  then show "assetTypeName self \<in> dom (collections (fst (addContentNode self s c node)))"
    by (rule dom_addContentNode_asset)
next
  assume "nodesOf s (assetTypeName self) = []"
  then show "schemaResolvers (addAssetSchemaResolvers self s) = schemaResolvers s"
    and "nodesOf (addAssetSchemaResolvers self s) (assetTypeName self) = []"
    by (simp_all add: addAssetSchemaResolvers_def Let_def nodesOf_getCollection
          schemaResolvers_getCollection)
next
  assume "nodesOf s (assetTypeName self) \<noteq> []"
  then show "schemaResolvers (addAssetSchemaResolvers self s) = schemaResolvers s @ [assetTypeName self]"
    by (simp add: addAssetSchemaResolvers_def Let_def nodesOf_getCollection
          schemaResolvers_getCollection store_addSchemaResolvers_def)
next
  fix s'
  assume "load self s = Inr s'"
  then show "assetTypeName self \<in> dom (collections s')"
    using dom_addAssetSchemaResolvers
    by (auto simp: load_def Let_def addSchemaResolvers_def split: sum.splits)
qed

theorem asset_collection_created_witness:
  "assetFields nodeQuote = [] \<and>
   findNode emptyStore ''Quote'' (item_id (item nodeQuote)) = None \<and>
   ''Asset'' \<in> dom (collections (fst (addContentNode exampleSource emptyStore ''Quote'' nodeQuote))) \<and>
   nodesOf emptyStore ''Asset'' = [] \<and>
   ''Asset'' \<in> dom (collections (addAssetSchemaResolvers exampleSource emptyStore)) \<and>
   schemaResolvers (addAssetSchemaResolvers exampleSource emptyStore) = [] \<and>
   nodesOf (addNode (getCollection emptyStore ''Asset'') ''Asset'' (AssetNode assetPng)) ''Asset''
     \<noteq> [] \<and>
   schemaResolvers (addAssetSchemaResolvers exampleSource
       (addNode (getCollection emptyStore ''Asset'') ''Asset'' (AssetNode assetPng))) = [''Asset''] \<and>
   (\<exists>s'. load exampleSource emptyStore = Inr s' \<and> ''Asset'' \<in> dom (collections s'))"
proof -
  let ?t = "addNode (getCollection emptyStore ''Asset'') ''Asset'' (AssetNode assetPng)"
  have n: "assetTypeName exampleSource = ''Asset''"
    by (simp add: assetTypeName_def exampleSource_def)
  have q: "assetFields nodeQuote = []"
    by (simp add: nodeQuote_def)
  have fresh: "findNode emptyStore ''Quote'' (item_id (item nodeQuote)) = None"
    by (simp add: findNode_def nodesOf_emptyStore)
  have e: "nodesOf emptyStore (assetTypeName exampleSource) = []"
    by (simp add: nodesOf_emptyStore)
  have ne: "nodesOf ?t (assetTypeName exampleSource) \<noteq> []"
    by (simp add: n nodesOf_addNode dom_getCollection)
  have r: "schemaResolvers emptyStore = []" "schemaResolvers ?t = []"
    by (simp_all add: emptyStore_def schemaResolvers_addNode schemaResolvers_getCollection)
  obtain s' where l: "load exampleSource emptyStore = Inr s'"
    by (simp add: load_def addTaxonomyGroupNodes_def addTaxonomyGroup_def exampleSource_def
          Let_def getCollection_def store_addCollection_def addReference_def emptyStore_def
          emptyCollection_def termA_def termB_def termC_def termD_def
          collection_addNode_def)
  show ?thesis
    using q fresh e ne r l
      asset_collection_created [of exampleSource emptyStore "''Quote''" nodeQuote]
      asset_collection_created [of exampleSource ?t "''Quote''" nodeQuote]
    unfolding n by (metis append_Nil)
qed

end
